theory Spec2Isabelle
  imports Complex_Main "HOL-Library.Sublist"
begin

section \<open>The proxy pool of stealth-api: catalog, distribution, director\<close>

text \<open>
  The development embeds the proxy-pool module (\<^verbatim>\<open>helpers/proxy-pool.mjs\<close>):
  \<^verbatim>\<open>clamp01\<close>, \<^verbatim>\<open>normalizeDistribution\<close>, \<^verbatim>\<open>weightedPick\<close>,
  \<^verbatim>\<open>applySessionToken\<close>, \<^verbatim>\<open>sanitizeEntry\<close>, \<^verbatim>\<open>firstAvailableType\<close> and the
  class \<^verbatim>\<open>ProxyDirector\<close> with \<^verbatim>\<open>_pickCountry\<close>, \<^verbatim>\<open>_nextRR\<close> and
  \<^verbatim>\<open>pickProxy\<close>.

  Conventions of the embedding.
  \<^item> A JavaScript object used as a dictionary is the list of its own entries in the order
    of \<^verbatim>\<open>Object.keys\<close>; a property read is \<open>map_of\<close>.
  \<^item> Weights are JavaScript numbers: a finite value (a rational here, so that arithmetic
    is exact), \<^verbatim>\<open>NaN\<close>, \<^verbatim>\<open>Infinity\<close> or \<^verbatim>\<open>-Infinity\<close>.
  \<^item> An optional string property is a \<open>string option\<close>; \<open>None\<close> is \<^verbatim>\<open>undefined\<close>.
  \<^item> Each value read from \<^verbatim>\<open>Math.random()\<close> is an argument of the function that
    reads it; the library promises \<open>0 \<le> r < 1\<close>.
  \<^item> A \<^verbatim>\<open>throw\<close> is a result \<open>Inl e\<close>. \<^verbatim>\<open>pickProxy\<close> returns its result together
    with the director as the call leaves it, also when it throws.
\<close>

subsection \<open>Numbers and the distribution normaliser\<close>

datatype jsnum = Num rat | NaN | PosInf | NegInf

text \<open>
  \<^verbatim>\<open>function clamp01(n) { return Math.max(0, Math.min(1, Number(n) || 0)); }\<close>
  \<^verbatim>\<open>NaN || 0\<close> is \<open>0\<close>; \<^verbatim>\<open>Math.min(1, Infinity)\<close> is \<open>1\<close>;
  \<^verbatim>\<open>Math.max(0, Math.min(1, -Infinity))\<close> is \<open>0\<close>.
\<close>

fun clamp01 :: "jsnum \<Rightarrow> rat" where
  "clamp01 (Num x) = max 0 (min 1 x)"
| "clamp01 NaN = 0"
| "clamp01 PosInf = 1"
| "clamp01 NegInf = 0"

type_synonym RawDistribution = "(string \<times> jsnum) list"
type_synonym CountryDistribution = "(string \<times> rat) list"

text \<open>\<^verbatim>\<open>dist[k]\<close>: a missing property is \<^verbatim>\<open>undefined\<close>, which \<^verbatim>\<open>Number\<close> turns into \<^verbatim>\<open>NaN\<close>.\<close>

definition weightOf :: "RawDistribution \<Rightarrow> string \<Rightarrow> jsnum" where
  "weightOf dst k = (case map_of dst k of Some v \<Rightarrow> v | None \<Rightarrow> NaN)"

text \<open>The local \<^verbatim>\<open>sum\<close> of \<^verbatim>\<open>normalizeDistribution\<close>: \<^verbatim>\<open>for (const k of keys) sum += clamp01(dist[k])\<close>.\<close>

definition clampedSum :: "RawDistribution \<Rightarrow> rat" where
  "clampedSum dst = sum_list (map (\<lambda>k. clamp01 (weightOf dst k)) (map fst dst))"

definition normalizeDistribution :: "RawDistribution \<Rightarrow> CountryDistribution" where
  "normalizeDistribution dst =
     (let keys = map fst dst in
      if keys = [] then []
      else let sum = clampedSum dst in
        if sum \<le> 0 then
          (let uniform = 1 / of_nat (length keys) in map (\<lambda>k. (k, uniform)) keys)
        else map (\<lambda>k. (k, clamp01 (weightOf dst k) / sum)) keys)"

text \<open>A normalised distribution read again as JavaScript numbers.\<close>

definition asNumbers :: "CountryDistribution \<Rightarrow> RawDistribution" where
  "asNumbers dst = map (\<lambda>(k, w). (k, Num w)) dst"


subsection \<open>Strings: truthiness, upper case, trimming, \<^verbatim>\<open>replaceAll\<close>\<close>

text \<open>
  \<^verbatim>\<open>a || b\<close> on an optional string \<open>a\<close>: \<^verbatim>\<open>undefined\<close> and the empty string are
  falsy, every other string is truthy.
\<close>

definition orElse :: "string option \<Rightarrow> string \<Rightarrow> string" where
  "orElse a b = (case a of None \<Rightarrow> b | Some s \<Rightarrow> if s = [] then b else s)"

text \<open>
  \<^verbatim>\<open>String.prototype.toUpperCase\<close> on the ASCII letters; every other character is kept
  (the country codes of this module are ASCII).
\<close>

definition toUpperChar :: "char \<Rightarrow> char" where
  "toUpperChar c =
     (case map_of (zip ''abcdefghijklmnopqrstuvwxyz'' ''ABCDEFGHIJKLMNOPQRSTUVWXYZ'') c of
        Some u \<Rightarrow> u | None \<Rightarrow> c)"

definition toUpperCase :: "string \<Rightarrow> string" where
  "toUpperCase s = map toUpperChar s"

text \<open>\<^verbatim>\<open>String.prototype.trim\<close> on the ASCII white space: space, TAB, LF, VT, FF, CR.\<close>

definition isSpace :: "char \<Rightarrow> bool" where
  "isSpace c = (c \<in> set [CHR 0x20, CHR 0x09, CHR 0x0A, CHR 0x0B, CHR 0x0C, CHR 0x0D])"

definition trim :: "string \<Rightarrow> string" where
  "trim s = rev (dropWhile isSpace (rev (dropWhile isSpace s)))"

text \<open>
  \<^verbatim>\<open>v.replaceAll(searchString, replaceValue)\<close> with two strings, as ECMA-262 defines it.
  The occurrences of the search string are found from left to right without overlap, and
  each is replaced by \<^verbatim>\<open>GetSubstitution(searchString, v, position, [], undefined, replaceValue)\<close>:
  the replacement text is a template in which \<^verbatim>\<open>$$\<close> stands for one dollar sign,
  \<^verbatim>\<open>$&\<close> for the matched text, \<^verbatim>\<open>$`\<close> for the part of \<open>v\<close> before the match and
  \<^verbatim>\<open>$'\<close> for the part after it. With a string pattern there are no captures, so
  \<^verbatim>\<open>$1\<close> and \<^verbatim>\<open>$<name>\<close> stay as they are written.
\<close>

fun getSubstitution :: "string \<Rightarrow> string \<Rightarrow> nat \<Rightarrow> string \<Rightarrow> string" where
  "getSubstitution matched str position [] = []"
| "getSubstitution matched str position [c] = [c]"
| "getSubstitution matched str position (c # c' # rest) =
     (if c = CHR ''$'' \<and> c' = CHR ''$'' then
        CHR ''$'' # getSubstitution matched str position rest
      else if c = CHR ''$'' \<and> c' = CHR ''&'' then
        matched @ getSubstitution matched str position rest
      else if c = CHR ''$'' \<and> c' = CHR 0x60 then
        take position str @ getSubstitution matched str position rest
      else if c = CHR ''$'' \<and> c' = CHR 0x27 then
        drop (position + length matched) str @ getSubstitution matched str position rest
      else c # getSubstitution matched str position (c' # rest))"

text \<open>
  The scan of \<^verbatim>\<open>replaceAll\<close> from \<open>position\<close>, where \<open>rest\<close> is the part of \<open>str\<close>
  from \<open>position\<close> on; the search string is not empty.
\<close>

function replaceFrom :: "string \<Rightarrow> string \<Rightarrow> string \<Rightarrow> nat \<Rightarrow> string \<Rightarrow> string" where
  "replaceFrom str search repl position [] = []"
| "replaceFrom str search repl position (c # cs) =
     (if search \<noteq> [] \<and> prefix search (c # cs) then
        getSubstitution search str position repl
          @ replaceFrom str search repl (position + length search) (drop (length search) (c # cs))
      else c # replaceFrom str search repl (Suc position) cs)"
  by pat_completeness auto
termination
  by (relation "measure (\<lambda>(str, search, repl, position, rest). length rest)") auto

definition replaceAll :: "string \<Rightarrow> string \<Rightarrow> string \<Rightarrow> string" where
  "replaceAll str search repl = replaceFrom str search repl 0 str"

text \<open>
  The replacement in the specification's words, for comparison with \<open>replaceAll\<close>: every
  occurrence of the search string, found from left to right without overlap, is replaced by
  the replacement string itself.
\<close>

function replaceEvery :: "string \<Rightarrow> string \<Rightarrow> string \<Rightarrow> string" where
  "replaceEvery search repl [] = []"
| "replaceEvery search repl (c # cs) =
     (if search \<noteq> [] \<and> prefix search (c # cs) then
        repl @ replaceEvery search repl (drop (length search) (c # cs))
      else c # replaceEvery search repl cs)"
  by pat_completeness auto
termination
  by (relation "measure (\<lambda>(search, repl, rest). length rest)") auto

subsection \<open>Endpoints, entries, catalog\<close>

text \<open>
  A stored endpoint object: the properties of \<^verbatim>\<open>ProxyConfig\<close>, the \<^verbatim>\<open>auth\<close> string
  that \<^verbatim>\<open>sanitizeEntry\<close> adds, and whatever further properties a raw catalog carries.
\<close>

record ProxyConfig =
  protocol :: string
  host :: string
  port :: int
  username :: "string option"
  password :: "string option"
  auth :: "string option"
  others :: "(string \<times> string) list"

record ProviderEntry =
  provider :: "string option"
  entry_notes :: "string option"
  endpoint :: "ProxyConfig option"

text \<open>A pool slot is \<open>None\<close> where the array holds \<^verbatim>\<open>null\<close>.\<close>

type_synonym Pool = "ProviderEntry option list"
type_synonym CountryRecord = "(string \<times> Pool) list"
type_synonym ProxyCatalog = "(string \<times> CountryRecord) list"

definition sessionToken :: string where
  "sessionToken = ''${session}''"

text \<open>
  \<^verbatim>\<open>applySessionToken(cfg, session)\<close>: \<^verbatim>\<open>if (!session) return { ...cfg }\<close>; otherwise
  an object literal with exactly \<^verbatim>\<open>protocol, host, port, username, password\<close>, where
  \<^verbatim>\<open>rep\<close> is applied to the three string properties.
\<close>

definition rep :: "string \<Rightarrow> string \<Rightarrow> string" where
  "rep session v = replaceAll v sessionToken session"

definition applySessionToken :: "ProxyConfig \<Rightarrow> string \<Rightarrow> ProxyConfig" where
  "applySessionToken cfg session =
     (if session = [] then cfg
      else \<lparr> protocol = protocol cfg,
             host = rep session (host cfg),
             port = port cfg,
             username = map_option (rep session) (username cfg),
             password = map_option (rep session) (password cfg),
             auth = None,
             others = [] \<rparr>)"

datatype error =
    TypeError
  | NoCountriesAvailable
  | NoProxyTypes
  | EmptyPool
  | EmptySlot
  | MissingEndpoint

text \<open>
  \<^verbatim>\<open>sanitizeEntry(entry)\<close> of the catalog builder. The argument is \<open>None\<close> for a value
  that is not an object. The result has the properties \<^verbatim>\<open>provider\<close> and \<^verbatim>\<open>endpoint\<close>
  only, and the endpoint the six properties of the literal.
\<close>

definition sanitizeEntry :: "ProviderEntry option \<Rightarrow> error + ProviderEntry" where
  "sanitizeEntry entry =
     (case entry of None \<Rightarrow> Inl TypeError
      | Some e \<Rightarrow>
        (case provider e of None \<Rightarrow> Inl TypeError
         | Some p \<Rightarrow>
           if p = [] then Inl TypeError
           else (case endpoint e of None \<Rightarrow> Inl TypeError
             | Some ep \<Rightarrow>
               if protocol ep \<noteq> ''http'' \<and> protocol ep \<noteq> ''https'' \<and> protocol ep \<noteq> ''socks5''
                 then Inl TypeError
               else if host ep = [] then Inl TypeError
               else if port ep \<le> 0 then Inl TypeError
               else
                 (let u = username ep; pw = password ep;
                      a = (case auth ep of Some x \<Rightarrow> Some x
                           | None \<Rightarrow>
                             if orElse u [] \<noteq> [] \<and> orElse pw [] \<noteq> []
                             then Some (the u @ '':'' @ the pw) else None)
                  in Inr \<lparr> provider = Some (trim p), entry_notes = None,
                            endpoint = Some \<lparr> protocol = protocol ep, host = host ep,
                              port = port ep, username = u, password = pw, auth = a,
                              others = [] \<rparr> \<rparr>))))"

subsection \<open>The director\<close>

record ProxySelectionOptions =
  sel_country :: "string option"
  sel_type :: "string option"
  sel_strategy :: "string option"
  sessionKey :: "string option"

record ProxyPickMeta =
  proxyConfig :: ProxyConfig
  pick_country :: string
  pick_type :: string
  pick_strategy :: string
  pick_provider :: "string option"
  pick_notes :: "string option"

record StickyEntry =
  sticky_country :: string
  sticky_type :: string
  sticky_index :: nat

text \<open>
  The fields of a \<^verbatim>\<open>ProxyDirector\<close>; \<open>rr\<close> and \<open>sticky\<close> are \<^verbatim>\<open>_rr\<close> and \<^verbatim>\<open>_sticky\<close>,
  and \<^verbatim>\<open>_pools\<close> is the catalog itself.
\<close>

record ProxyDirector =
  catalog :: ProxyCatalog
  countryDistribution :: CountryDistribution
  defaultType :: string
  defaultStrategy :: string
  rr :: "string \<rightharpoonup> nat"
  sticky :: "string \<rightharpoonup> StickyEntry"

text \<open>The constructor; an argument that is \<open>None\<close> takes its default.\<close>

definition newDirector ::
  "ProxyCatalog \<Rightarrow> RawDistribution \<Rightarrow> string option \<Rightarrow> string option \<Rightarrow> ProxyDirector" where
  "newDirector cat dst dType dStrategy =
     \<lparr> catalog = cat,
       countryDistribution = normalizeDistribution dst,
       defaultType = (case dType of None \<Rightarrow> ''res_rotating'' | Some t \<Rightarrow> t),
       defaultStrategy = (case dStrategy of None \<Rightarrow> ''random'' | Some s \<Rightarrow> s),
       rr = Map.empty,
       sticky = Map.empty \<rparr>"

text \<open>\<^verbatim>\<open>xs[i]\<close>: reading beyond the end of an array gives \<^verbatim>\<open>undefined\<close>.\<close>

definition elemAt :: "'a list \<Rightarrow> nat \<Rightarrow> 'a option" where
  "elemAt xs i = (if i < length xs then Some (xs ! i) else None)"

text \<open>\<^verbatim>\<open>Math.floor(Math.random() * len)\<close> for the value \<open>rnd\<close> read from \<^verbatim>\<open>Math.random()\<close>.\<close>

definition randomIndex :: "rat \<Rightarrow> nat \<Rightarrow> nat" where
  "randomIndex rnd len = nat \<lfloor>rnd * of_nat len\<rfloor>"

text \<open>The loop of \<^verbatim>\<open>weightedPick\<close>: \<^verbatim>\<open>if ((r -= weights[i]) <= 0) return entries[i].key\<close>.\<close>

fun weightedLoop :: "rat \<Rightarrow> (string \<times> rat) list \<Rightarrow> string option" where
  "weightedLoop r [] = None"
| "weightedLoop r ((k, w) # es) = (if r - w \<le> 0 then Some k else weightedLoop (r - w) es)"

definition weightedPick :: "(string \<times> rat) list \<Rightarrow> rat \<Rightarrow> string option" where
  "weightedPick entries rnd =
     (let weights = map (\<lambda>e. max 0 (snd e)) entries;
          total = sum_list weights
      in if total \<le> 0 then (case entries of [] \<Rightarrow> None | e # _ \<Rightarrow> Some (fst e))
         else (case weightedLoop (rnd * total) (zip (map fst entries) weights) of
                 Some k \<Rightarrow> Some k
               | None \<Rightarrow> (if entries = [] then None else Some (fst (last entries)))))"

definition pickCountry :: "ProxyDirector \<Rightarrow> rat \<Rightarrow> string option" where
  "pickCountry d rnd =
     (let countries = map fst (catalog d) in
      if countries = [] then None
      else
        let weighted = map (\<lambda>c. (c, case map_of (countryDistribution d) c of
                                        Some w \<Rightarrow> w | None \<Rightarrow> 0)) countries;
            allZero = list_all (\<lambda>w. snd w \<le> 0) weighted
        in if allZero then elemAt countries (randomIndex rnd (length countries))
           else weightedPick weighted rnd)"

text \<open>
  \<^verbatim>\<open>_nextRR(key, len)\<close>:
  \<^verbatim>\<open>const i = (this._rr[key] = ((this._rr[key] ?? 0) + 1) % len); return i;\<close>
\<close>

definition nextRR :: "ProxyDirector \<Rightarrow> string \<Rightarrow> nat \<Rightarrow> nat \<times> ProxyDirector" where
  "nextRR d key len =
     (let i = ((case rr d key of None \<Rightarrow> 0 | Some v \<Rightarrow> v) + 1) mod len
      in (i, d\<lparr>rr := (rr d)(key \<mapsto> i)\<rparr>))"

text \<open>\<^verbatim>\<open>Array.isArray(cRec[t]) && cRec[t].length\<close>\<close>

definition populated :: "CountryRecord \<Rightarrow> string \<Rightarrow> bool" where
  "populated cRec t = (case map_of cRec t of None \<Rightarrow> False | Some pool \<Rightarrow> pool \<noteq> [])"

definition typeOrder :: "string list" where
  "typeOrder = [''res_rotating'', ''res_static'', ''dc_rotating'', ''dc_static'']"

text \<open>
  \<^verbatim>\<open>firstAvailableType(cRec)\<close>; the last line is \<^verbatim>\<open>return keys[0] || null\<close>, so that
  an empty first key gives \<^verbatim>\<open>null\<close>.
\<close>

definition firstAvailableType :: "CountryRecord option \<Rightarrow> string option" where
  "firstAvailableType c =
     (case c of None \<Rightarrow> None
      | Some cRec \<Rightarrow>
        (case filter (populated cRec) typeOrder of
           t # _ \<Rightarrow> Some t
         | [] \<Rightarrow>
           (case filter (populated cRec) (map fst cRec) of
              [] \<Rightarrow> None
            | k # _ \<Rightarrow> if k = [] then None else Some k)))"

text \<open>The key of the round-robin cursor: \<^verbatim>\<open>`${country}:${poolType}`\<close>.\<close>

definition rrKey :: "string \<Rightarrow> string \<Rightarrow> string" where
  "rrKey country poolType = country @ '':'' @ poolType"

text \<open>
  The first part of \<^verbatim>\<open>pickProxy\<close>, up to \<^verbatim>\<open>const pool\<close> and its check: the country,
  the type and the pool the call resolves to, or the error it throws. Nothing of the
  director is written here. \<open>rnd\<close> is the value \<^verbatim>\<open>_pickCountry\<close> reads.
\<close>

definition resolveCountry :: "ProxyDirector \<Rightarrow> ProxySelectionOptions \<Rightarrow> rat \<Rightarrow> string" where
  "resolveCountry d sel rnd =
     toUpperCase
       (orElse (sel_country sel)
          (orElse (pickCountry d rnd)
             (orElse (elemAt (map fst (catalog d)) 0) [])))"

text \<open>
  The local \<^verbatim>\<open>poolType\<close>: the desired type when its pool is populated, otherwise
  \<^verbatim>\<open>firstAvailableType\<close> of the country record.
\<close>

definition resolveType ::
  "ProxyDirector \<Rightarrow> ProxySelectionOptions \<Rightarrow> CountryRecord \<Rightarrow> string option" where
  "resolveType d sel cRec =
     (let desiredType = orElse (sel_type sel) (defaultType d) in
      if populated cRec desiredType then Some desiredType
      else firstAvailableType (Some cRec))"

definition resolvePool ::
  "ProxyDirector \<Rightarrow> ProxySelectionOptions \<Rightarrow> rat \<Rightarrow> error + (string \<times> string \<times> Pool)" where
  "resolvePool d sel rnd =
     (let country = resolveCountry d sel rnd in
      if country = [] then Inl NoCountriesAvailable
      else (case map_of (catalog d) country of
          None \<Rightarrow> Inl NoCountriesAvailable
        | Some cRec \<Rightarrow>
          (let poolType = orElse (resolveType d sel cRec) [] in
           if poolType = [] then Inl NoProxyTypes
           else (case map_of cRec poolType of
               None \<Rightarrow> Inl EmptyPool
             | Some pool \<Rightarrow>
                 if pool = [] then Inl EmptyPool
                 else Inr (country, poolType, pool)))))"

text \<open>
  The strategy block of \<^verbatim>\<open>pickProxy\<close>: the index and the director after it. \<open>rnd\<close> is
  the value read from \<^verbatim>\<open>Math.random()\<close> by the branch that reads one.
\<close>

definition selectIndex ::
  "ProxyDirector \<Rightarrow> ProxySelectionOptions \<Rightarrow> string \<Rightarrow> string \<Rightarrow> string \<Rightarrow> nat \<Rightarrow> rat
     \<Rightarrow> nat \<times> ProxyDirector" where
  "selectIndex d sel strategy country poolType len rnd =
     (if strategy = ''random'' then (randomIndex rnd len, d)
      else if strategy = ''roundRobin'' then nextRR d (rrKey country poolType) len
      else if strategy = ''sticky'' then
        (let key = orElse (sessionKey sel) [] in
         if key = [] then nextRR d (rrKey country poolType) len
         else
           (let fresh = randomIndex rnd len;
                stored = (fresh, d\<lparr>sticky := (sticky d)(key \<mapsto>
                            \<lparr> sticky_country = country, sticky_type = poolType,
                              sticky_index = fresh \<rparr>)\<rparr>)
            in case sticky d key of
                 None \<Rightarrow> stored
               | Some existing \<Rightarrow>
                   if sticky_country existing = country \<and> sticky_type existing = poolType
                      \<and> sticky_index existing < len
                   then (sticky_index existing, d)
                   else stored))
      else (randomIndex rnd len, d))"

text \<open>
  The last part of \<^verbatim>\<open>pickProxy\<close>, from \<^verbatim>\<open>const entry = pool[index]\<close> on: the two
  checks of the slot, the expansion of the session token and the returned object.
\<close>

definition deliver ::
  "ProxySelectionOptions \<Rightarrow> string \<Rightarrow> string \<Rightarrow> string \<Rightarrow> Pool \<Rightarrow> nat
     \<Rightarrow> error + ProxyPickMeta" where
  "deliver sel country poolType strategy pool index =
     (case elemAt pool index of
        None \<Rightarrow> Inl EmptySlot
      | Some None \<Rightarrow> Inl EmptySlot
      | Some (Some entry) \<Rightarrow>
        (case endpoint entry of
           None \<Rightarrow> Inl MissingEndpoint
         | Some ep \<Rightarrow>
             Inr \<lparr> proxyConfig = applySessionToken ep (orElse (sessionKey sel) []),
                   pick_country = country,
                   pick_type = poolType,
                   pick_strategy = strategy,
                   pick_provider = provider entry,
                   pick_notes = entry_notes entry \<rparr>))"

text \<open>The strategy a call applies: \<^verbatim>\<open>sel.strategy || this.defaultStrategy\<close>.\<close>

definition strategyOf :: "ProxyDirector \<Rightarrow> ProxySelectionOptions \<Rightarrow> string" where
  "strategyOf d sel = orElse (sel_strategy sel) (defaultStrategy d)"

text \<open>
  \<^verbatim>\<open>pickProxy(sel)\<close>. \<open>rc\<close> is the random value of the country choice, \<open>ri\<close> the one
  of the index choice. The second component is the director after the call.
\<close>

definition pickProxy ::
  "ProxyDirector \<Rightarrow> ProxySelectionOptions \<Rightarrow> rat \<Rightarrow> rat
     \<Rightarrow> (error + ProxyPickMeta) \<times> ProxyDirector" where
  "pickProxy d sel rc ri =
     (case resolvePool d sel rc of
        Inl e \<Rightarrow> (Inl e, d)
      | Inr (country, poolType, pool) \<Rightarrow>
          (let strategy = strategyOf d sel;
               (index, d') = selectIndex d sel strategy country poolType (length pool) ri
           in (deliver sel country poolType strategy pool index, d')))"

text \<open>
  The value of the local \<^verbatim>\<open>index\<close> of a call of \<^verbatim>\<open>pickProxy\<close>; \<open>None\<close> when the call
  throws before it chooses one.
\<close>

definition pickedIndex ::
  "ProxyDirector \<Rightarrow> ProxySelectionOptions \<Rightarrow> rat \<Rightarrow> rat \<Rightarrow> nat option" where
  "pickedIndex d sel rc ri =
     (case resolvePool d sel rc of
        Inl e \<Rightarrow> None
      | Inr (country, poolType, pool) \<Rightarrow>
          Some (fst (selectIndex d sel (strategyOf d sel) country poolType (length pool) ri)))"

text \<open>
  Consecutive calls of \<^verbatim>\<open>pickProxy\<close> on one director: each call is the options with
  its two random values. \<open>pickMany\<close> lists the results in order, with the director at the
  end; \<open>indices\<close> lists the indices the calls choose.
\<close>

fun pickMany ::
  "ProxyDirector \<Rightarrow> (ProxySelectionOptions \<times> rat \<times> rat) list
     \<Rightarrow> (error + ProxyPickMeta) list \<times> ProxyDirector" where
  "pickMany d [] = ([], d)"
| "pickMany d ((sel, rc, ri) # calls) =
     (let (r, d') = pickProxy d sel rc ri;
          (rs, d'') = pickMany d' calls
      in (r # rs, d''))"

fun indices ::
  "ProxyDirector \<Rightarrow> (ProxySelectionOptions \<times> rat \<times> rat) list \<Rightarrow> nat option list" where
  "indices d [] = []"
| "indices d ((sel, rc, ri) # calls) =
     pickedIndex d sel rc ri # indices (snd (pickProxy d sel rc ri)) calls"




text \<open>
  The sticky table holds, for the session key, the index \<open>i\<close> of the pool of
  \<open>(country, poolType)\<close>: the entry \<^verbatim>\<open>{ country, type, index }\<close> that the sticky
  branch of \<^verbatim>\<open>pickProxy\<close> compares with the resolved pair.
\<close>

definition pinned :: "ProxyDirector \<Rightarrow> string \<Rightarrow> string \<Rightarrow> string \<Rightarrow> nat \<Rightarrow> bool" where
  "pinned d key country poolType i =
     (case sticky d key of
        None \<Rightarrow> False
      | Some e \<Rightarrow> sticky_country e = country \<and> sticky_type e = poolType \<and> sticky_index e = i)"

subsection \<open>Sample data\<close>

definition epA :: ProxyConfig where
  "epA = \<lparr> protocol = ''http'', host = ''u-${session}.proxy.io'', port = 80,
           username = Some ''acct-${session}'', password = Some ''p'',
           auth = None, others = [] \<rparr>"

definition epB :: ProxyConfig where
  "epB = \<lparr> protocol = ''https'', host = ''b.proxy.io'', port = 8080,
           username = None, password = None, auth = None, others = [] \<rparr>"

definition entryA :: ProviderEntry where
  "entryA = \<lparr> provider = Some ''A'', entry_notes = Some ''main'', endpoint = Some epA \<rparr>"

definition entryB :: ProviderEntry where
  "entryB = \<lparr> provider = Some ''B'', entry_notes = None, endpoint = Some epB \<rparr>"

definition entryC :: ProviderEntry where
  "entryC = \<lparr> provider = Some ''C'', entry_notes = None, endpoint = Some epB \<rparr>"

definition poolABC :: Pool where
  "poolABC = [Some entryA, Some entryB, Some entryC]"

text \<open>\<^verbatim>\<open>{ US: { res_rotating: [A, B, C] }, DE: { dc_static: [B] } }\<close>\<close>

definition sampleCatalog :: ProxyCatalog where
  "sampleCatalog =
     [(''US'', [(''res_rotating'', poolABC)]), (''DE'', [(''dc_static'', [Some entryB])])]"

text \<open>
  An entry as the caller hands it to the catalog builder, the catalog with the entry that
  \<^verbatim>\<open>sanitizeEntry\<close> makes of it, a catalog whose country key is written in lower case, and
  a catalog whose only type key is the empty string.
\<close>

definition rawEntry :: ProviderEntry where
  "rawEntry =
     \<lparr> provider = Some ''Webshare'', entry_notes = None,
       endpoint = Some \<lparr> protocol = ''http'', host = ''p.webshare.io'', port = 80,
                          username = Some ''u'', password = Some ''p'',
                          auth = None, others = [] \<rparr> \<rparr>"

definition builtCatalog :: ProxyCatalog where
  "builtCatalog =
     (case sanitizeEntry (Some rawEntry) of
        Inl e \<Rightarrow> []
      | Inr clean \<Rightarrow> [(''US'', [(''res_rotating'', [Some clean])])])"


definition emptyTypeCatalog :: ProxyCatalog where
  "emptyTypeCatalog = [(''US'', [([], [Some entryB])])]"

definition selNone :: ProxySelectionOptions where
  "selNone = \<lparr> sel_country = None, sel_type = None, sel_strategy = None, sessionKey = None \<rparr>"

definition sampleDirector :: ProxyDirector where
  "sampleDirector = newDirector sampleCatalog [(''US'', Num 1)] None None"

definition selUS :: "string \<Rightarrow> string option \<Rightarrow> ProxySelectionOptions" where
  "selUS strategy key =
     \<lparr> sel_country = Some ''us'', sel_type = Some ''res_rotating'',
       sel_strategy = Some strategy, sessionKey = key \<rparr>"

subsection \<open>Facts about the normaliser\<close>

lemma clamp01_bounds: "0 \<le> clamp01 n \<and> clamp01 n \<le> 1"
  by (cases n) simp_all

lemma clamp01_fixed: "0 \<le> x \<Longrightarrow> x \<le> 1 \<Longrightarrow> clamp01 (Num x) = x"
  by simp

lemma nonneg_member_le_sum_list:
  fixes xs :: "rat list"
  assumes "list_all (\<lambda>x. 0 \<le> x) xs" and "x \<in> set xs"
  shows "x \<le> sum_list xs"
  using assms
proof (induction xs)
  case Nil
  then show ?case by simp
next
  case (Cons y ys)
  have nonneg: "0 \<le> sum_list ys"
    using Cons.prems(1) by (simp add: list_all_iff sum_list_nonneg)
  show ?case
  proof (cases "x = y")
    case True
    with nonneg show ?thesis by simp
  next
    case False
    with Cons have "x \<le> sum_list ys" by simp
    moreover have "0 \<le> y" using Cons.prems(1) by simp
    ultimately show ?thesis by simp
  qed
qed

lemma clampedSum_nonneg: "0 \<le> clampedSum dst"
  unfolding clampedSum_def by (rule sum_list_nonneg) (auto simp: clamp01_bounds)

lemma clamp_le_clampedSum:
  assumes "k \<in> fst ` set dst"
  shows "clamp01 (weightOf dst k) \<le> clampedSum dst"
  unfolding clampedSum_def
proof (rule nonneg_member_le_sum_list)
  show "list_all (\<lambda>x. 0 \<le> x) (map (\<lambda>k. clamp01 (weightOf dst k)) (map fst dst))"
    by (simp add: list_all_iff clamp01_bounds)
  show "clamp01 (weightOf dst k) \<in> set (map (\<lambda>k. clamp01 (weightOf dst k)) (map fst dst))"
    using assms by auto
qed


lemma normalizeDistribution_positive:
  assumes "0 < clampedSum dst"
  shows "normalizeDistribution dst =
           map (\<lambda>k. (k, clamp01 (weightOf dst k) / clampedSum dst)) (map fst dst)"
  using assms by (auto simp: normalizeDistribution_def Let_def)

lemma normalizeDistribution_uniform:
  assumes "clampedSum dst \<le> 0"
  shows "normalizeDistribution dst = map (\<lambda>k. (k, 1 / of_nat (length dst))) (map fst dst)"
  using assms by (auto simp: normalizeDistribution_def Let_def)

lemma sum_list_scaled:
  fixes f :: "'a \<Rightarrow> rat"
  shows "sum_list (map (\<lambda>k. f k / c) ks) = sum_list (map f ks) / c"
  by (induction ks) (simp_all add: add_divide_distrib)

lemma normalizeDistribution_total:
  assumes "dst \<noteq> []"
  shows "sum_list (map snd (normalizeDistribution dst)) = 1"
proof (cases "clampedSum dst \<le> 0")
  case True
  have "sum_list (map snd (normalizeDistribution dst)) =
          of_nat (length dst) * (1 / of_nat (length dst))"
    by (simp add: normalizeDistribution_uniform [OF True] comp_def sum_list_triv)
  also have "\<dots> = 1" using assms by simp
  finally show ?thesis .
next
  case False
  then have pos: "0 < clampedSum dst" by simp
  have "sum_list (map snd (normalizeDistribution dst)) =
          sum_list (map (\<lambda>k. clamp01 (weightOf dst k)) (map fst dst)) / clampedSum dst"
    by (simp add: normalizeDistribution_positive [OF pos] comp_def sum_list_scaled)
  also have "\<dots> = 1" using pos by (simp add: clampedSum_def)
  finally show ?thesis .
qed



lemma weightOf_tabulated:
  assumes "k \<in> set ks"
  shows "weightOf (map (\<lambda>k. (k, Num (f k))) ks) k = Num (f k)"
  using assms by (simp add: weightOf_def map_of_map_restrict)

lemma normalize_of_normalized:
  assumes nonempty: "ks \<noteq> []"
    and bounds: "\<And>k. k \<in> set ks \<Longrightarrow> 0 \<le> f k \<and> f k \<le> 1"
    and total: "sum_list (map f ks) = 1"
  shows "normalizeDistribution (map (\<lambda>k. (k, Num (f k))) ks) = map (\<lambda>k. (k, f k)) ks"
proof -
  let ?D = "map (\<lambda>k. (k, Num (f k))) ks"
  have keys: "map fst ?D = ks" by (simp add: comp_def)
  have each: "clamp01 (weightOf ?D k) = f k" if "k \<in> set ks" for k
    using that bounds [OF that] by (simp add: weightOf_tabulated)
  have "clampedSum ?D = sum_list (map (\<lambda>k. clamp01 (weightOf ?D k)) ks)"
    unfolding clampedSum_def keys ..
  also have "\<dots> = sum_list (map f ks)"
    by (rule arg_cong [where f = sum_list], rule map_cong) (simp_all add: each)
  finally have one: "clampedSum ?D = 1" using total by simp
  then have "normalizeDistribution ?D = map (\<lambda>k. (k, clamp01 (weightOf ?D k) / clampedSum ?D)) (map fst ?D)"
    by (intro normalizeDistribution_positive) simp
  also have "\<dots> = map (\<lambda>k. (k, clamp01 (weightOf ?D k))) ks"
    unfolding keys one by simp
  also have "\<dots> = map (\<lambda>k. (k, f k)) ks"
    by (rule map_cong) (simp_all add: each)
  finally show ?thesis .
qed

lemma asNumbers_tabulated: "asNumbers (map (\<lambda>k. (k, f k)) ks) = map (\<lambda>k. (k, Num (f k))) ks"
  by (simp add: asNumbers_def)

lemma normalizeDistribution_tabulated:
  "normalizeDistribution dst =
     map (\<lambda>k. (k, if clampedSum dst \<le> 0 then 1 / of_nat (length dst)
                   else clamp01 (weightOf dst k) / clampedSum dst)) (map fst dst)"
  by (cases "clampedSum dst \<le> 0")
     (simp_all add: normalizeDistribution_uniform normalizeDistribution_positive)


subsection \<open>C5: what the normaliser returns\<close>





subsection \<open>C10: normalising twice\<close>

text \<open>
  C10. Over exact rational arithmetic, normalising the result of
  \<^verbatim>\<open>normalizeDistribution\<close> again returns the same distribution, for every input map.
\<close>

theorem normalizeDistribution_idempotent:
  "normalizeDistribution (asNumbers (normalizeDistribution dst)) = normalizeDistribution dst"
proof (cases "dst = []")
  case True
  then show ?thesis by (simp add: normalizeDistribution_def asNumbers_def)
next
  case False
  let ?f = "\<lambda>k. if clampedSum dst \<le> 0 then 1 / of_nat (length dst)
                   else clamp01 (weightOf dst k) / clampedSum dst"
  let ?ks = "map fst dst"
  have tab: "normalizeDistribution dst = map (\<lambda>k. (k, ?f k)) ?ks"
    by (rule normalizeDistribution_tabulated)
  have nonempty: "?ks \<noteq> []" using False by simp
  have bounds: "0 \<le> ?f k \<and> ?f k \<le> 1" if "k \<in> set ?ks" for k
  proof (cases "clampedSum dst \<le> 0")
    case True
    have "1 \<le> length dst" using False by (cases dst) simp_all
    then have "(1::rat) \<le> of_nat (length dst)" by simp
    with True show ?thesis by (simp add: divide_le_eq)
  next
    case False
    then have pos: "0 < clampedSum dst" by simp
    have "clamp01 (weightOf dst k) \<le> clampedSum dst"
      using that by (intro clamp_le_clampedSum) simp
    with pos False show ?thesis by (simp add: clamp01_bounds divide_le_eq)
  qed
  have "sum_list (map snd (normalizeDistribution dst)) = 1"
    using False by (rule normalizeDistribution_total)
  then have total: "sum_list (map ?f ?ks) = 1"
    unfolding tab by (simp add: comp_def)
  have "normalizeDistribution (map (\<lambda>k. (k, Num (?f k))) ?ks) = map (\<lambda>k. (k, ?f k)) ?ks"
    using nonempty bounds total by (rule normalize_of_normalized)
  then show ?thesis
    unfolding tab asNumbers_tabulated .
qed


text \<open>The theorem at a concrete map, with the value of the second normalisation.\<close>

theorem normalizeDistribution_idempotent_witness:
  "normalizeDistribution (asNumbers (normalizeDistribution [(''US'', Num 3), (''DE'', NaN), (''IN'', Num (1 / 2))]))
     = [(''US'', 2 / 3), (''DE'', 0), (''IN'', 1 / 3)]"
  using normalizeDistribution_idempotent [of "[(''US'', Num 3), (''DE'', NaN), (''IN'', Num (1 / 2))]"]
  by (simp add: normalizeDistribution_def clampedSum_def weightOf_def Let_def)


subsection \<open>Facts about the director\<close>

lemma randomIndex_less:
  assumes "0 \<le> rnd" and "rnd < 1" and "0 < len"
  shows "randomIndex rnd len < len"
proof -
  have "rnd * of_nat len < of_nat len"
    using assms by simp
  then have "\<lfloor>rnd * of_nat len\<rfloor> < int len"
    by (simp add: floor_less_iff)
  moreover have "0 \<le> \<lfloor>rnd * of_nat len\<rfloor>"
    using assms by simp
  ultimately show ?thesis
    unfolding randomIndex_def by linarith
qed

lemma resolvePool_Inr:
  assumes "resolvePool d sel rnd = Inr (country, poolType, pool)"
  shows "country = resolveCountry d sel rnd \<and> country \<noteq> [] \<and> poolType \<noteq> [] \<and> pool \<noteq> []
         \<and> (\<exists>cRec. map_of (catalog d) country = Some cRec
               \<and> orElse (resolveType d sel cRec) [] = poolType
               \<and> map_of cRec poolType = Some pool)"
  using assms
  by (auto simp: resolvePool_def Let_def split: if_splits option.splits)

lemma resolvePool_frame:
  assumes "catalog d' = catalog d" and "countryDistribution d' = countryDistribution d"
    and "defaultType d' = defaultType d"
  shows "resolvePool d' sel rnd = resolvePool d sel rnd"
proof -
  have "pickCountry d' rnd = pickCountry d rnd"
    unfolding pickCountry_def assms(1,2) ..
  then have country: "resolveCountry d' sel rnd = resolveCountry d sel rnd"
    unfolding resolveCountry_def assms(1) by simp
  have ty: "resolveType d' sel cRec = resolveType d sel cRec" for cRec
    unfolding resolveType_def assms(3) ..
  show ?thesis
    unfolding resolvePool_def country assms(1) ty ..
qed

lemma selectIndex_frame:
  assumes "selectIndex d sel strategy country poolType len rnd = (i, d')"
  shows "catalog d' = catalog d \<and> countryDistribution d' = countryDistribution d
         \<and> defaultType d' = defaultType d \<and> defaultStrategy d' = defaultStrategy d"
  using assms
  by (auto simp: selectIndex_def nextRR_def Let_def split: if_splits option.splits)

lemma pickProxy_frame:
  "catalog (snd (pickProxy d sel rc ri)) = catalog d
   \<and> countryDistribution (snd (pickProxy d sel rc ri)) = countryDistribution d
   \<and> defaultType (snd (pickProxy d sel rc ri)) = defaultType d
   \<and> defaultStrategy (snd (pickProxy d sel rc ri)) = defaultStrategy d"
proof (cases "resolvePool d sel rc")
  case (Inl e)
  then show ?thesis by (simp add: pickProxy_def)
next
  case (Inr r)
  obtain country poolType pool where r: "r = (country, poolType, pool)"
    by (cases r) auto
  obtain i d' where sel: "selectIndex d sel (strategyOf d sel) country poolType (length pool) ri = (i, d')"
    by (cases "selectIndex d sel (strategyOf d sel) country poolType (length pool) ri") auto
  have "snd (pickProxy d sel rc ri) = d'"
    using Inr r sel by (simp add: pickProxy_def)
  with selectIndex_frame [OF sel] show ?thesis by simp
qed

lemma resolvePool_after:
  "resolvePool (snd (pickProxy d sel rc ri)) sel' rnd = resolvePool d sel' rnd"
  using pickProxy_frame [of d sel rc ri] by (intro resolvePool_frame) simp_all

lemma strategyOf_after:
  "strategyOf (snd (pickProxy d sel rc ri)) sel' = strategyOf d sel'"
  using pickProxy_frame [of d sel rc ri] by (simp add: strategyOf_def)

lemma pickProxy_resolved:
  assumes "resolvePool d sel rc = Inr (country, poolType, pool)"
  shows "pickProxy d sel rc ri =
           (deliver sel country poolType (strategyOf d sel) pool
              (fst (selectIndex d sel (strategyOf d sel) country poolType (length pool) ri)),
            snd (selectIndex d sel (strategyOf d sel) country poolType (length pool) ri))"
    and "pickedIndex d sel rc ri =
           Some (fst (selectIndex d sel (strategyOf d sel) country poolType (length pool) ri))"
  using assms by (simp_all add: pickProxy_def pickedIndex_def split_beta Let_def)

lemma pickProxy_unresolved:
  assumes "resolvePool d sel rc = Inl e"
  shows "pickProxy d sel rc ri = (Inl e, d)" and "pickedIndex d sel rc ri = None"
  using assms by (simp_all add: pickProxy_def pickedIndex_def)

text \<open>The cursor of a round-robin key, as \<^verbatim>\<open>_nextRR\<close> reads it: \<^verbatim>\<open>this._rr[key] ?? 0\<close>.\<close>

lemma roundRobin_call:
  assumes "resolvePool d sel rc = Inr (country, poolType, pool)"
    and "strategyOf d sel = ''roundRobin''"
  shows "pickProxy d sel rc ri =
           (deliver sel country poolType ''roundRobin'' pool
              (((case rr d (rrKey country poolType) of None \<Rightarrow> 0 | Some v \<Rightarrow> v) + 1) mod length pool),
            d\<lparr>rr := (rr d)(rrKey country poolType \<mapsto>
              ((case rr d (rrKey country poolType) of None \<Rightarrow> 0 | Some v \<Rightarrow> v) + 1) mod length pool)\<rparr>)"
    and "pickedIndex d sel rc ri =
           Some (((case rr d (rrKey country poolType) of None \<Rightarrow> 0 | Some v \<Rightarrow> v) + 1) mod length pool)"
  using assms
  by (simp_all add: pickProxy_resolved selectIndex_def nextRR_def Let_def)

text \<open>The definitions a concrete call is evaluated with.\<close>

lemmas director_defs =
  pickProxy_def pickedIndex_def resolvePool_def resolveCountry_def resolveType_def
  strategyOf_def selectIndex_def nextRR_def deliver_def elemAt_def rrKey_def
  orElse_def toUpperCase_def toUpperChar_def populated_def firstAvailableType_def
  typeOrder_def pickCountry_def weightedPick_def randomIndex_def newDirector_def
  normalizeDistribution_def clampedSum_def weightOf_def
  applySessionToken_def rep_def replaceAll_def sessionToken_def Let_def

lemmas sample_defs =
  sampleDirector_def sampleCatalog_def poolABC_def entryA_def entryB_def entryC_def
  epA_def epB_def selUS_def

subsection \<open>C1: the round-robin cursor\<close>

text \<open>
  C1, as the code has it. For a call of \<^verbatim>\<open>pickProxy\<close> with strategy \<^verbatim>\<open>roundRobin\<close> that
  resolves to the pool of \<open>(country, poolType)\<close>, of length \<open>L\<close>: when the key
  \<^verbatim>\<open>country:poolType\<close> has never been used, the call returns the entry at index
  \<open>1 mod L\<close> (the cursor starts at 0 and is incremented before it is used); when the
  cursor of the key holds \<open>p\<close>, the call returns the entry at index \<open>(p + 1) mod L\<close>.
  The call stores the returned index under the key, which is what the next call on the key
  reads; the cursors of the other keys and the sticky table are left as they are.
\<close>

theorem roundRobin_cursor:
  assumes "resolvePool d sel rc = Inr (country, poolType, pool)"
    and "strategyOf d sel = ''roundRobin''"
  shows "(rr d (rrKey country poolType) = None \<longrightarrow>
            pickedIndex d sel rc ri = Some (1 mod length pool)
            \<and> pickProxy d sel rc ri =
                (deliver sel country poolType ''roundRobin'' pool (1 mod length pool),
                 d\<lparr>rr := (rr d)(rrKey country poolType \<mapsto> 1 mod length pool)\<rparr>))
       \<and> (\<forall>p. rr d (rrKey country poolType) = Some p \<longrightarrow>
            pickedIndex d sel rc ri = Some ((p + 1) mod length pool)
            \<and> pickProxy d sel rc ri =
                (deliver sel country poolType ''roundRobin'' pool ((p + 1) mod length pool),
                 d\<lparr>rr := (rr d)(rrKey country poolType \<mapsto> (p + 1) mod length pool)\<rparr>))
       \<and> rr (snd (pickProxy d sel rc ri)) (rrKey country poolType) = pickedIndex d sel rc ri
       \<and> (\<forall>k. k \<noteq> rrKey country poolType \<longrightarrow> rr (snd (pickProxy d sel rc ri)) k = rr d k)
       \<and> sticky (snd (pickProxy d sel rc ri)) = sticky d"
  by (simp add: roundRobin_call [OF assms])


text \<open>The theorem on a fresh director whose pool \<^verbatim>\<open>US/res_rotating\<close> has three entries.\<close>

theorem roundRobin_cursor_witness:
  "resolvePool sampleDirector (selUS ''roundRobin'' None) 0 = Inr (''US'', ''res_rotating'', poolABC)
   \<and> strategyOf sampleDirector (selUS ''roundRobin'' None) = ''roundRobin''
   \<and> rr sampleDirector (rrKey ''US'' ''res_rotating'') = None
   \<and> pickedIndex sampleDirector (selUS ''roundRobin'' None) 0 0 = Some 1
   \<and> rr (snd (pickProxy sampleDirector (selUS ''roundRobin'' None) 0 0)) (rrKey ''US'' ''res_rotating'')
       = Some 1
   \<and> pickedIndex (snd (pickProxy sampleDirector (selUS ''roundRobin'' None) 0 0))
        (selUS ''roundRobin'' None) 0 0 = Some 2"
proof -
  let ?sel = "selUS ''roundRobin'' None"
  let ?d1 = "snd (pickProxy sampleDirector ?sel 0 0)"
  have r: "resolvePool sampleDirector ?sel 0 = Inr (''US'', ''res_rotating'', poolABC)"
    by (simp add: director_defs sample_defs)
  have s: "strategyOf sampleDirector ?sel = ''roundRobin''"
    by (simp add: strategyOf_def orElse_def selUS_def)
  have f: "rr sampleDirector (rrKey ''US'' ''res_rotating'') = None"
    by (simp add: sampleDirector_def newDirector_def)
  have len: "length poolABC = 3" by (simp add: poolABC_def)
  from roundRobin_cursor [OF r s, of 0] f
  have first: "pickedIndex sampleDirector ?sel 0 0 = Some 1"
    and stored: "rr ?d1 (rrKey ''US'' ''res_rotating'') = Some 1"
    by (simp_all add: len)
  have r1: "resolvePool ?d1 ?sel 0 = Inr (''US'', ''res_rotating'', poolABC)"
    and s1: "strategyOf ?d1 ?sel = ''roundRobin''"
    using r s by (simp_all add: resolvePool_after strategyOf_after)
  from roundRobin_cursor [OF r1 s1, of 0] stored
  have second: "pickedIndex ?d1 ?sel 0 0 = Some 2"
    by (simp add: len)
  from r s f first stored second show ?thesis by blast
qed

text \<open>
  The claim as the specification words it, that the first call on a never-used key returns
  the entry at index 0, fails on the fresh sample director: the pool has entries A, B, C
  and the first round-robin call returns B, the entry at index 1.
\<close>

theorem roundRobin_first_index_counterexample:
  "rr sampleDirector (rrKey ''US'' ''res_rotating'') = None
   \<and> resolvePool sampleDirector (selUS ''roundRobin'' None) 0 = Inr (''US'', ''res_rotating'', poolABC)
   \<and> length poolABC = 3
   \<and> pickedIndex sampleDirector (selUS ''roundRobin'' None) 0 0 = Some 1
   \<and> map_sum id pick_provider (fst (pickProxy sampleDirector (selUS ''roundRobin'' None) 0 0))
       = Inr (Some ''B'')
   \<and> fst (pickProxy sampleDirector (selUS ''roundRobin'' None) 0 0)
       \<noteq> deliver (selUS ''roundRobin'' None) ''US'' ''res_rotating'' ''roundRobin'' poolABC 0"
  by (simp add: director_defs sample_defs)

subsection \<open>C9: round-robin coverage\<close>

lemma upt_shift: "[1..<Suc (Suc n)] = 1 # map Suc [1..<Suc n]"
proof -
  have "[1..<Suc (Suc n)] = 1 # [Suc 1..<Suc (Suc n)]"
    by (rule upt_conv_Cons) simp
  then show ?thesis
    by (simp only: map_Suc_upt)
qed

lemma roundRobin_indices_from:
  assumes "\<forall>(sel, rc, ri) \<in> set calls.
             resolvePool d sel rc = Inr (country, poolType, pool)
             \<and> strategyOf d sel = ''roundRobin''"
  shows "indices d calls =
           map (\<lambda>k. Some (((case rr d (rrKey country poolType) of None \<Rightarrow> 0 | Some v \<Rightarrow> v) + k)
                             mod length pool))
               [1..<Suc (length calls)]"
  using assms
proof (induction calls arbitrary: d)
  case Nil
  then show ?case by simp
next
  case (Cons call calls)
  obtain sel rc ri where call: "call = (sel, rc, ri)" by (cases call) auto
  let ?key = "rrKey country poolType"
  let ?cur = "case rr d ?key of None \<Rightarrow> 0 | Some v \<Rightarrow> v"
  let ?d' = "snd (pickProxy d sel rc ri)"
  have res: "resolvePool d sel rc = Inr (country, poolType, pool)"
    and str: "strategyOf d sel = ''roundRobin''"
    using Cons.prems call by auto
  have idx: "pickedIndex d sel rc ri = Some ((?cur + 1) mod length pool)"
    by (rule roundRobin_call(2) [OF res str])
  have cur': "(case rr ?d' ?key of None \<Rightarrow> 0 | Some v \<Rightarrow> v) = (?cur + 1) mod length pool"
    by (simp add: roundRobin_call(1) [OF res str])
  have "\<forall>(sel', rc', ri') \<in> set calls.
          resolvePool ?d' sel' rc' = Inr (country, poolType, pool)
          \<and> strategyOf ?d' sel' = ''roundRobin''"
    using Cons.prems by (auto simp: resolvePool_after strategyOf_after)
  then have "indices ?d' calls =
      map (\<lambda>k. Some (((?cur + 1) mod length pool + k) mod length pool)) [1..<Suc (length calls)]"
    using Cons.IH [of ?d'] cur' by simp
  also have "\<dots> = map (\<lambda>k. Some ((?cur + Suc k) mod length pool)) [1..<Suc (length calls)]"
    by (simp add: mod_add_left_eq)
  finally have rest: "indices ?d' calls =
      map (\<lambda>k. Some ((?cur + Suc k) mod length pool)) [1..<Suc (length calls)]" .
  show ?case
    unfolding call indices.simps idx rest length_Cons upt_shift
    by (simp add: comp_def)
qed

lemma cycle_indices:
  assumes "0 < L"
  shows "distinct (map (\<lambda>k. k mod L) [1..<Suc L])"
    and "set (map (\<lambda>k. k mod L) [1..<Suc L]) = {0..<L}"
proof -
  have inj: "inj_on (\<lambda>k. k mod L) (set [1..<Suc L])"
  proof (rule inj_onI)
    fix j k assume "j \<in> set [1..<Suc L]" and "k \<in> set [1..<Suc L]"
      and eq: "j mod L = k mod L"
    then have j: "j \<in> {1..<Suc L}" and k: "k \<in> {1..<Suc L}"
      by (simp_all del: upt_Suc)
    show "j = k"
    proof (cases "j = L")
      case True
      then have "k mod L = 0" using eq by simp
      then have "k = L" using k by (cases "k = L") auto
      with True show ?thesis by simp
    next
      case False
      then have jl: "j < L" using j by auto
      show ?thesis
      proof (cases "k = L")
        case True
        then have "j mod L = 0" using eq by simp
        with jl j show ?thesis by auto
      next
        case False
        then have "k < L" using k by auto
        with jl eq show ?thesis by simp
      qed
    qed
  qed
  have "distinct [1..<Suc L]" by (rule distinct_upt)
  then show "distinct (map (\<lambda>k. k mod L) [1..<Suc L])"
    using inj by (rule distinct_map [THEN iffD2, OF conjI])
  show "set (map (\<lambda>k. k mod L) [1..<Suc L]) = {0..<L}"
  proof (intro set_eqI iffI)
    fix x assume "x \<in> set (map (\<lambda>k. k mod L) [1..<Suc L])"
    then show "x \<in> {0..<L}" using assms by auto
  next
    fix x assume x: "x \<in> {0..<L}"
    show "x \<in> set (map (\<lambda>k. k mod L) [1..<Suc L])"
    proof (cases "x = 0")
      case True
      have "L \<in> set [1..<Suc L]" using assms by simp
      moreover have "L mod L = x" using True by simp
      ultimately show ?thesis by (metis image_eqI set_map)
    next
      case False
      then have "x \<in> set [1..<Suc L]" using x by simp
      moreover have "x mod L = x" using x by simp
      ultimately show ?thesis by (metis image_eqI set_map)
    qed
  qed
qed

lemma pickMany_results_Cons:
  "fst (pickMany d ((sel, rc, ri) # calls)) =
     fst (pickProxy d sel rc ri) # fst (pickMany (snd (pickProxy d sel rc ri)) calls)"
  by (simp add: split_beta Let_def)

lemma roundRobin_results_from:
  assumes "\<forall>(sel, rc, ri) \<in> set calls.
             resolvePool d sel rc = Inr (country, poolType, pool)
             \<and> strategyOf d sel = ''roundRobin''"
  shows "fst (pickMany d calls) =
           map (\<lambda>p.
                  deliver (fst (snd p)) country poolType ''roundRobin'' pool
                    (((case rr d (rrKey country poolType) of None \<Rightarrow> 0 | Some v \<Rightarrow> v) + fst p)
                       mod length pool))
               (zip [1..<Suc (length calls)] calls)"
  using assms
proof (induction calls arbitrary: d)
  case Nil
  then show ?case by simp
next
  case (Cons call calls)
  obtain sel rc ri where call: "call = (sel, rc, ri)" by (cases call) auto
  let ?key = "rrKey country poolType"
  let ?cur = "case rr d ?key of None \<Rightarrow> 0 | Some v \<Rightarrow> v"
  let ?d' = "snd (pickProxy d sel rc ri)"
  have res: "resolvePool d sel rc = Inr (country, poolType, pool)"
    and str: "strategyOf d sel = ''roundRobin''"
    using Cons.prems call by auto
  have first: "fst (pickProxy d sel rc ri) =
      deliver sel country poolType ''roundRobin'' pool ((?cur + 1) mod length pool)"
    by (simp add: roundRobin_call(1) [OF res str])
  have cur': "(case rr ?d' ?key of None \<Rightarrow> 0 | Some v \<Rightarrow> v) = (?cur + 1) mod length pool"
    by (simp add: roundRobin_call(1) [OF res str])
  have "\<forall>(sel', rc', ri') \<in> set calls.
          resolvePool ?d' sel' rc' = Inr (country, poolType, pool)
          \<and> strategyOf ?d' sel' = ''roundRobin''"
    using Cons.prems by (auto simp: resolvePool_after strategyOf_after)
  then have "fst (pickMany ?d' calls) =
      map (\<lambda>p. deliver (fst (snd p)) country poolType ''roundRobin'' pool
             (((?cur + 1) mod length pool + fst p) mod length pool))
          (zip [1..<Suc (length calls)] calls)"
    using Cons.IH [of ?d'] cur' by (simp del: upt_Suc)
  also have "\<dots> =
      map (\<lambda>p. deliver (fst (snd p)) country poolType ''roundRobin'' pool
             ((?cur + Suc (fst p)) mod length pool))
          (zip [1..<Suc (length calls)] calls)"
    by (simp add: mod_add_left_eq del: upt_Suc)
  finally have rest: "fst (pickMany ?d' calls) =
      map (\<lambda>p. deliver (fst (snd p)) country poolType ''roundRobin'' pool
             ((?cur + Suc (fst p)) mod length pool))
          (zip [1..<Suc (length calls)] calls)" .
  show ?case
    unfolding call pickMany_results_Cons first rest length_Cons upt_shift
    by (simp add: zip_map1 split_beta comp_def del: upt_Suc)
qed

text \<open>
  C9, as the code has it. On a never-used round-robin key, consecutive round-robin calls
  that resolve to one pool of length \<open>L\<close> choose the indices \<open>1 mod L, 2 mod L, 3 mod L,
  \<dots>\<close>: the first call chooses index \<open>1 mod L\<close>, not index 0, and each call moves to the
  next index, cyclically. Call number \<open>j + 1\<close> returns what \<^verbatim>\<open>pickProxy\<close> makes of the
  pool slot at index \<open>(j + 1) mod L\<close>: when that slot is an entry with an endpoint, the pick
  with that endpoint (session token expanded), the resolved country and type, the strategy
  \<^verbatim>\<open>roundRobin\<close> and the provider and notes of that entry. So \<open>L\<close> calls visit every index
  of the pool exactly once, in the order \<open>1, 2, \<dots>, L - 1, 0\<close>, and call \<open>L + 1\<close> chooses
  the index of the first call again.
\<close>

theorem roundRobin_full_coverage:
  assumes fresh: "rr d (rrKey country poolType) = None"
    and calls: "\<forall>(sel, rc, ri) \<in> set calls.
             resolvePool d sel rc = Inr (country, poolType, pool)
             \<and> strategyOf d sel = ''roundRobin''"
  shows "indices d calls = map (\<lambda>k. Some (k mod length pool)) [1..<Suc (length calls)]
       \<and> fst (pickMany d calls) =
           map (\<lambda>p. deliver (fst (snd p)) country poolType ''roundRobin'' pool
                      (fst p mod length pool))
               (zip [1..<Suc (length calls)] calls)
       \<and> (\<forall>j entry ep.
             j < length calls
             \<and> elemAt pool (Suc j mod length pool) = Some (Some entry)
             \<and> endpoint entry = Some ep \<longrightarrow>
             fst (pickMany d calls) ! j =
               Inr \<lparr> proxyConfig =
                       applySessionToken ep (orElse (sessionKey (fst (calls ! j))) []),
                     pick_country = country, pick_type = poolType,
                     pick_strategy = ''roundRobin'',
                     pick_provider = provider entry, pick_notes = entry_notes entry \<rparr>)
       \<and> (length calls = length pool \<longrightarrow>
            distinct (indices d calls) \<and> set (indices d calls) = Some ` {0..<length pool})
       \<and> (length calls = Suc (length pool) \<longrightarrow>
            last (indices d calls) = hd (indices d calls))"
proof -
  let ?L = "length pool"
  have L: "0 < ?L" if "calls \<noteq> []"
  proof -
    from that obtain sel rc ri where "(sel, rc, ri) \<in> set calls"
      by (cases calls) auto
    with calls have "resolvePool d sel rc = Inr (country, poolType, pool)" by auto
    then have "pool \<noteq> []" by (simp add: resolvePool_Inr)
    then show ?thesis by simp
  qed
  have seq: "indices d calls = map (\<lambda>k. Some (k mod ?L)) [1..<Suc (length calls)]"
    using roundRobin_indices_from [OF calls] fresh by simp
  have results: "fst (pickMany d calls) =
      map (\<lambda>p. deliver (fst (snd p)) country poolType ''roundRobin'' pool (fst p mod ?L))
          (zip [1..<Suc (length calls)] calls)"
    using roundRobin_results_from [OF calls] fresh by (simp del: upt_Suc)
  have picks: "fst (pickMany d calls) ! j =
      Inr \<lparr> proxyConfig = applySessionToken ep (orElse (sessionKey (fst (calls ! j))) []),
            pick_country = country, pick_type = poolType, pick_strategy = ''roundRobin'',
            pick_provider = provider entry, pick_notes = entry_notes entry \<rparr>"
    if j: "j < length calls" and slot: "elemAt pool (Suc j mod ?L) = Some (Some entry)"
      and ep: "endpoint entry = Some ep" for j entry ep
  proof -
    have "[1..<Suc (length calls)] ! j = Suc j"
      using j by (simp del: upt_Suc)
    then have "fst (pickMany d calls) ! j =
        deliver (fst (calls ! j)) country poolType ''roundRobin'' pool (Suc j mod ?L)"
      unfolding results using j by (simp add: split_beta del: upt_Suc)
    then show ?thesis using slot ep by (simp add: deliver_def)
  qed
  have cover: "distinct (indices d calls) \<and> set (indices d calls) = Some ` {0..<?L}"
    if len: "length calls = ?L"
  proof (cases "calls = []")
    case True
    with len seq show ?thesis by simp
  next
    case False
    note L = L [OF False]
    let ?xs = "map (\<lambda>k. k mod ?L) [1..<Suc ?L]"
    have eq: "indices d calls = map Some ?xs"
      using seq len by (simp add: comp_def)
    have "inj_on Some (set ?xs)" by (rule inj_onI) simp
    with cycle_indices(1) [OF L] have "distinct (map Some ?xs)"
      by (rule distinct_map [THEN iffD2, OF conjI])
    moreover have "set (map Some ?xs) = Some ` {0..<?L}"
      unfolding set_map [of Some] cycle_indices(2) [OF L] ..
    ultimately show ?thesis unfolding eq by simp
  qed
  have again: "last (indices d calls) = hd (indices d calls)"
    if "length calls = Suc ?L"
  proof -
    from that have "calls \<noteq> []" by auto
    note L = L [OF this]
    have eq: "indices d calls = map (\<lambda>k. Some (k mod ?L)) [1..<Suc (Suc ?L)]"
      using seq that by simp
    have "hd (indices d calls) = Some (1 mod ?L)"
      unfolding eq upt_shift by simp
    moreover have "last (indices d calls) = Some (Suc ?L mod ?L)"
      unfolding eq by (simp add: last_map)
    moreover have "Suc ?L mod ?L = 1 mod ?L"
      by (metis Suc_eq_plus1 mod_add_self1 add.commute)
    ultimately show ?thesis by simp
  qed
  from seq results picks cover again show ?thesis by blast
qed

text \<open>
  The theorem at three and at four calls on the fresh sample director, whose pool
  \<^verbatim>\<open>US/res_rotating\<close> holds the entries A, B, C: the three calls return B, C, A.
\<close>

theorem roundRobin_full_coverage_witness:
  "rr sampleDirector (rrKey ''US'' ''res_rotating'') = None
   \<and> resolvePool sampleDirector (selUS ''roundRobin'' None) 0 = Inr (''US'', ''res_rotating'', poolABC)
   \<and> strategyOf sampleDirector (selUS ''roundRobin'' None) = ''roundRobin''
   \<and> indices sampleDirector (replicate 3 (selUS ''roundRobin'' None, 0, 0)) = [Some 1, Some 2, Some 0]
   \<and> map (map_sum id pick_provider)
        (fst (pickMany sampleDirector (replicate 3 (selUS ''roundRobin'' None, 0, 0))))
       = [Inr (Some ''B''), Inr (Some ''C''), Inr (Some ''A'')]
   \<and> elemAt poolABC (Suc 2 mod length poolABC) = Some (Some entryA)
   \<and> endpoint entryA = Some epA
   \<and> fst (pickMany sampleDirector (replicate 3 (selUS ''roundRobin'' None, 0, 0))) ! 2
       = Inr \<lparr> proxyConfig = epA, pick_country = ''US'', pick_type = ''res_rotating'',
               pick_strategy = ''roundRobin'', pick_provider = Some ''A'',
               pick_notes = Some ''main'' \<rparr>
   \<and> distinct (indices sampleDirector (replicate 3 (selUS ''roundRobin'' None, 0, 0)))
   \<and> set (indices sampleDirector (replicate 3 (selUS ''roundRobin'' None, 0, 0))) = Some ` {0..<3}
   \<and> indices sampleDirector (replicate 4 (selUS ''roundRobin'' None, 0, 0))
        = [Some 1, Some 2, Some 0, Some 1]
   \<and> last (indices sampleDirector (replicate 4 (selUS ''roundRobin'' None, 0, 0)))
        = hd (indices sampleDirector (replicate 4 (selUS ''roundRobin'' None, 0, 0)))"
proof -
  let ?sel = "selUS ''roundRobin'' None"
  have f: "rr sampleDirector (rrKey ''US'' ''res_rotating'') = None"
    by (simp add: sampleDirector_def newDirector_def)
  have r: "resolvePool sampleDirector ?sel 0 = Inr (''US'', ''res_rotating'', poolABC)"
    by (simp add: director_defs sample_defs)
  have s: "strategyOf sampleDirector ?sel = ''roundRobin''"
    by (simp add: strategyOf_def orElse_def selUS_def)
  have c: "\<forall>(sel, rc, ri) \<in> set (replicate n (?sel, 0, 0)).
             resolvePool sampleDirector sel rc = Inr (''US'', ''res_rotating'', poolABC)
             \<and> strategyOf sampleDirector sel = ''roundRobin''" for n
    using r s by auto
  have len: "length poolABC = 3" by (simp add: poolABC_def)
  have three: "[1..<Suc 3] = [1, 2, 3]" and four: "[1..<Suc 4] = [1, 2, 3, 4]"
    by (simp_all add: upt_rec)
  have rep3: "replicate 3 x = [x, x, x]" for x :: "ProxySelectionOptions \<times> rat \<times> rat"
    by (simp add: numeral_3_eq_3)
  note t3 = roundRobin_full_coverage [OF f c [of 3], unfolded len length_replicate three]
  have a: "indices sampleDirector (replicate 3 (?sel, 0, 0)) = [Some 1, Some 2, Some 0]"
    using t3 by simp
  have res3: "fst (pickMany sampleDirector (replicate 3 (?sel, 0, 0))) =
      [deliver ?sel ''US'' ''res_rotating'' ''roundRobin'' poolABC 1,
       deliver ?sel ''US'' ''res_rotating'' ''roundRobin'' poolABC 2,
       deliver ?sel ''US'' ''res_rotating'' ''roundRobin'' poolABC 0]"
    using t3 [THEN conjunct2, THEN conjunct1] by (simp add: rep3)
  have p: "map (map_sum id pick_provider)
             (fst (pickMany sampleDirector (replicate 3 (?sel, 0, 0))))
           = [Inr (Some ''B''), Inr (Some ''C''), Inr (Some ''A'')]"
    unfolding res3
    by (simp add: deliver_def elemAt_def poolABC_def entryA_def entryB_def entryC_def)
  have slot: "elemAt poolABC (Suc 2 mod length poolABC) = Some (Some entryA)"
    by (simp add: elemAt_def poolABC_def)
  have ep: "endpoint entryA = Some epA" by (simp add: entryA_def)
  have two: "(2::nat) < 3" by simp
  have nokey: "orElse (sessionKey (fst (replicate 3 (?sel, 0::rat, 0::rat) ! 2))) [] = []"
    by (simp add: rep3 orElse_def selUS_def)
  from t3 [THEN conjunct2, THEN conjunct2, THEN conjunct1, rule_format, of 2 entryA epA]
    two slot ep
  have third: "fst (pickMany sampleDirector (replicate 3 (?sel, 0, 0))) ! 2
       = Inr \<lparr> proxyConfig = epA, pick_country = ''US'', pick_type = ''res_rotating'',
               pick_strategy = ''roundRobin'', pick_provider = Some ''A'',
               pick_notes = Some ''main'' \<rparr>"
    unfolding len nokey by (simp add: applySessionToken_def entryA_def)
  have b: "distinct (indices sampleDirector (replicate 3 (?sel, 0, 0)))"
    and b': "set (indices sampleDirector (replicate 3 (?sel, 0, 0))) = Some ` {0..<3}"
    using t3 by blast+
  note t4 = roundRobin_full_coverage [OF f c [of 4], unfolded len length_replicate four]
  have d: "indices sampleDirector (replicate 4 (?sel, 0, 0)) = [Some 1, Some 2, Some 0, Some 1]"
    using t4 by simp
  have "(4::nat) = Suc 3" by simp
  with t4 have e: "last (indices sampleDirector (replicate 4 (?sel, 0, 0)))
              = hd (indices sampleDirector (replicate 4 (?sel, 0, 0)))"
    by blast
  from f r s a p slot ep third b b' d e show ?thesis by blast
qed

text \<open>
  The claim as the specification words it, that \<open>L\<close> calls on a fresh key visit the indices
  in order from index 0, fails on the fresh sample director: its pool has the entries A, B,
  C, and three round-robin calls choose the indices 1, 2, 0 and return B, C, A, not
  0, 1, 2 and A, B, C.
\<close>

theorem roundRobin_order_counterexample:
  "rr sampleDirector (rrKey ''US'' ''res_rotating'') = None
   \<and> resolvePool sampleDirector (selUS ''roundRobin'' None) 0 = Inr (''US'', ''res_rotating'', poolABC)
   \<and> length poolABC = 3
   \<and> indices sampleDirector
        [(selUS ''roundRobin'' None, 0, 0), (selUS ''roundRobin'' None, 0, 0),
         (selUS ''roundRobin'' None, 0, 0)] = [Some 1, Some 2, Some 0]
   \<and> indices sampleDirector
        [(selUS ''roundRobin'' None, 0, 0), (selUS ''roundRobin'' None, 0, 0),
         (selUS ''roundRobin'' None, 0, 0)] \<noteq> [Some 0, Some 1, Some 2]
   \<and> map (map_sum id pick_provider)
        (fst (pickMany sampleDirector
           [(selUS ''roundRobin'' None, 0, 0), (selUS ''roundRobin'' None, 0, 0),
            (selUS ''roundRobin'' None, 0, 0)]))
       = [Inr (Some ''B''), Inr (Some ''C''), Inr (Some ''A'')]
   \<and> map (\<lambda>i. map_sum id pick_provider
                 (deliver (selUS ''roundRobin'' None) ''US'' ''res_rotating'' ''roundRobin''
                    poolABC i)) [0, 1, 2]
       = [Inr (Some ''A''), Inr (Some ''B''), Inr (Some ''C'')]"
  by (simp add: director_defs sample_defs split_beta)

subsection \<open>C3: the sticky strategy without a session key\<close>

lemma resolvePool_options:
  assumes "sel_country sel' = sel_country sel" and "sel_type sel' = sel_type sel"
  shows "resolvePool d sel' rnd = resolvePool d sel rnd"
proof -
  have country: "resolveCountry d sel' rnd = resolveCountry d sel rnd"
    unfolding resolveCountry_def assms(1) ..
  have ty: "resolveType d sel' cRec = resolveType d sel cRec" for cRec
    unfolding resolveType_def assms(2) ..
  show ?thesis
    unfolding resolvePool_def country ty ..
qed

lemma deliver_isl:
  "isl (deliver sel' country poolType strategy' pool i) = isl (deliver sel country poolType strategy pool i)"
  by (simp add: deliver_def split: option.splits)

lemma deliver_relabel:
  assumes "orElse (sessionKey sel') [] = orElse (sessionKey sel) []"
  shows "map_sum id (\<lambda>p. p\<lparr>pick_strategy := strategy'\<rparr>) (deliver sel country poolType strategy pool i)
           = deliver sel' country poolType strategy' pool i"
  using assms by (simp add: deliver_def split: option.splits)

lemma deliver_proxyConfig:
  assumes "orElse (sessionKey sel') [] = orElse (sessionKey sel) []"
  shows "map_sum id proxyConfig (deliver sel' country poolType strategy' pool i)
           = map_sum id proxyConfig (deliver sel country poolType strategy pool i)"
  using assms by (simp add: deliver_def split: option.splits)

lemma selectIndex_sticky_nokey:
  assumes "orElse (sessionKey sel) [] = []"
  shows "selectIndex d sel ''sticky'' country poolType len rnd = nextRR d (rrKey country poolType) len"
  using assms by (simp add: selectIndex_def)

lemma selectIndex_roundRobin:
  "selectIndex d sel ''roundRobin'' country poolType len rnd = nextRR d (rrKey country poolType) len"
  by (simp add: selectIndex_def)

text \<open>
  C3. Let a call have the strategy \<^verbatim>\<open>sticky\<close> and no session key (none, or the empty
  string), and let another call ask for the same country and type with the strategy
  \<^verbatim>\<open>roundRobin\<close>. From the same director, the sticky call runs \<^verbatim>\<open>_nextRR\<close> on the
  same key \<^verbatim>\<open>country:type\<close> as the round-robin call: the two choose the same index and
  leave the same director behind. The sticky call throws exactly when the round-robin call
  does, and when the round-robin call has no session key either, the two results differ in
  the strategy label only.
\<close>

theorem sticky_without_key_is_roundRobin:
  assumes nokey: "orElse (sessionKey selS) [] = []"
    and sticky: "strategyOf d selS = ''sticky''"
    and rrobin: "strategyOf d selR = ''roundRobin''"
    and same: "sel_country selR = sel_country selS" "sel_type selR = sel_type selS"
  shows "(\<forall>country poolType len.
            selectIndex d selS ''sticky'' country poolType len ri = nextRR d (rrKey country poolType) len
            \<and> selectIndex d selR ''roundRobin'' country poolType len ri
                = nextRR d (rrKey country poolType) len)
       \<and> pickedIndex d selS rc ri = pickedIndex d selR rc ri
       \<and> snd (pickProxy d selS rc ri) = snd (pickProxy d selR rc ri)
       \<and> isl (fst (pickProxy d selS rc ri)) = isl (fst (pickProxy d selR rc ri))
       \<and> (orElse (sessionKey selR) [] = [] \<longrightarrow>
            map_sum id (\<lambda>p. p\<lparr>pick_strategy := ''roundRobin''\<rparr>) (fst (pickProxy d selS rc ri))
              = fst (pickProxy d selR rc ri))"
proof -
  have res: "resolvePool d selR rc = resolvePool d selS rc"
    using same by (rule resolvePool_options)
  show ?thesis
  proof (cases "resolvePool d selS rc")
    case (Inl e)
    then show ?thesis
      using res nokey
      by (simp add: pickProxy_unresolved selectIndex_sticky_nokey selectIndex_roundRobin)
  next
    case (Inr r)
    obtain country poolType pool where r: "resolvePool d selS rc = Inr (country, poolType, pool)"
      using Inr by (cases r) auto
    then have r': "resolvePool d selR rc = Inr (country, poolType, pool)"
      using res by simp
    show ?thesis
      using nokey
      by (simp add: pickProxy_resolved [OF r] pickProxy_resolved [OF r'] sticky rrobin
            selectIndex_sticky_nokey selectIndex_roundRobin deliver_isl [of selS]
            deliver_relabel [of selR selS])
  qed
qed


text \<open>The theorem on the fresh sample director, with the empty string as session key.\<close>

theorem sticky_without_key_is_roundRobin_witness:
  "orElse (sessionKey (selUS ''sticky'' (Some []))) [] = []
   \<and> strategyOf sampleDirector (selUS ''sticky'' (Some [])) = ''sticky''
   \<and> strategyOf sampleDirector (selUS ''roundRobin'' None) = ''roundRobin''
   \<and> pickedIndex sampleDirector (selUS ''sticky'' (Some [])) 0 0 = Some 1
   \<and> pickedIndex sampleDirector (selUS ''roundRobin'' None) 0 0 = Some 1
   \<and> snd (pickProxy sampleDirector (selUS ''sticky'' (Some [])) 0 0)
       = snd (pickProxy sampleDirector (selUS ''roundRobin'' None) 0 0)
   \<and> \<not> isl (fst (pickProxy sampleDirector (selUS ''sticky'' (Some [])) 0 0))
   \<and> map_sum id (\<lambda>p. p\<lparr>pick_strategy := ''roundRobin''\<rparr>)
         (fst (pickProxy sampleDirector (selUS ''sticky'' (Some [])) 0 0))
       = fst (pickProxy sampleDirector (selUS ''roundRobin'' None) 0 0)"
proof -
  let ?S = "selUS ''sticky'' (Some [])" and ?R = "selUS ''roundRobin'' None"
  have a: "orElse (sessionKey ?S) [] = []" by (simp add: orElse_def selUS_def)
  have a': "orElse (sessionKey ?R) [] = []" by (simp add: orElse_def selUS_def)
  have b: "strategyOf sampleDirector ?S = ''sticky''"
    by (simp add: strategyOf_def orElse_def selUS_def)
  have c: "strategyOf sampleDirector ?R = ''roundRobin''"
    by (simp add: strategyOf_def orElse_def selUS_def)
  have d: "sel_country ?R = sel_country ?S" "sel_type ?R = sel_type ?S"
    by (simp_all add: selUS_def)
  have e: "pickedIndex sampleDirector ?R 0 0 = Some 1"
    by (simp add: director_defs sample_defs)
  have f: "\<not> isl (fst (pickProxy sampleDirector ?R 0 0))"
    by (simp add: director_defs sample_defs)
  from sticky_without_key_is_roundRobin [OF a b c d, of 0 0] a a' b c e f
  show ?thesis by simp
qed

subsection \<open>C2: sticky affinity\<close>

lemma sticky_call_reuse:
  assumes res: "resolvePool d sel rc = Inr (country, poolType, pool)"
    and str: "strategyOf d sel = ''sticky''"
    and key: "orElse (sessionKey sel) [] = key" "key \<noteq> []"
    and pin: "pinned d key country poolType i" "i < length pool"
  shows "pickProxy d sel rc ri = (deliver sel country poolType ''sticky'' pool i, d)"
    and "pickedIndex d sel rc ri = Some i"
  using key pin
  by (auto simp: pickProxy_resolved [OF res] str selectIndex_def pinned_def Let_def
           split: option.splits)

lemma sticky_call_fresh:
  assumes res: "resolvePool d sel rc = Inr (country, poolType, pool)"
    and str: "strategyOf d sel = ''sticky''"
    and key: "orElse (sessionKey sel) [] = key" "key \<noteq> []"
    and nopin: "\<not> (\<exists>i < length pool. pinned d key country poolType i)"
  shows "pickProxy d sel rc ri =
           (deliver sel country poolType ''sticky'' pool (randomIndex ri (length pool)),
            d\<lparr>sticky := (sticky d)(key \<mapsto>
                 \<lparr> sticky_country = country, sticky_type = poolType,
                   sticky_index = randomIndex ri (length pool) \<rparr>)\<rparr>)"
    and "pickedIndex d sel rc ri = Some (randomIndex ri (length pool))"
  using key nopin
  by (auto simp: pickProxy_resolved [OF res] str selectIndex_def pinned_def Let_def
           split: option.splits)

text \<open>After a sticky call with a session key, the table pins the key to the chosen index.\<close>

lemma sticky_call_pins:
  assumes res: "resolvePool d sel rc = Inr (country, poolType, pool)"
    and str: "strategyOf d sel = ''sticky''"
    and key: "orElse (sessionKey sel) [] = key" "key \<noteq> []"
    and rnd: "0 \<le> ri" "ri < 1"
  shows "\<exists>i < length pool. pickedIndex d sel rc ri = Some i
           \<and> pinned (snd (pickProxy d sel rc ri)) key country poolType i"
proof (cases "\<exists>i < length pool. pinned d key country poolType i")
  case True
  then obtain i where i: "i < length pool" "pinned d key country poolType i" by blast
  show ?thesis
    using sticky_call_reuse [OF res str key i(2) i(1), of ri] i by auto
next
  case False
  have "pool \<noteq> []" using res by (simp add: resolvePool_Inr)
  then have "randomIndex ri (length pool) < length pool"
    using rnd by (intro randomIndex_less) simp_all
  then show ?thesis
    using sticky_call_fresh [OF res str key False, of ri]
    by (auto simp: pinned_def)
qed

text \<open>
  A call keeps the pin of a session key, unless it is a sticky call with that key that
  resolves to another pair.
\<close>

lemma pinned_kept:
  assumes pin: "pinned d key country poolType i" "i < length pool"
    and call: "strategyOf d sel = ''sticky'' \<and> orElse (sessionKey sel) [] = key
                 \<longrightarrow> resolvePool d sel rc = Inr (country, poolType, pool)"
  shows "pinned (snd (pickProxy d sel rc ri)) key country poolType i"
proof (cases "resolvePool d sel rc")
  case (Inl e)
  then show ?thesis using pin by (simp add: pickProxy_unresolved)
next
  case (Inr r)
  obtain c t p where r: "resolvePool d sel rc = Inr (c, t, p)"
    using Inr by (cases r) auto
  show ?thesis
  proof (cases "strategyOf d sel = ''sticky'' \<and> orElse (sessionKey sel) [] = key \<and> key \<noteq> []")
    case True
    with call have res: "resolvePool d sel rc = Inr (country, poolType, pool)" by simp
    show ?thesis
      using pin sticky_call_reuse(1) [OF res _ _ _ pin, of ri] True by simp
  next
    case False
    then show ?thesis
      using pin
      by (auto simp: pickProxy_resolved [OF r] selectIndex_def nextRR_def pinned_def Let_def
               split: option.splits)
  qed
qed


lemma pickMany_Cons:
  "snd (pickMany d ((sel, rc, ri) # calls)) = snd (pickMany (snd (pickProxy d sel rc ri)) calls)"
  by (simp add: split_beta Let_def)

lemma pickMany_frame:
  "resolvePool (snd (pickMany d calls)) sel rnd = resolvePool d sel rnd
   \<and> strategyOf (snd (pickMany d calls)) sel = strategyOf d sel"
proof (induction calls arbitrary: d)
  case Nil
  then show ?case by simp
next
  case (Cons call calls)
  obtain s rc ri where call: "call = (s, rc, ri)" by (cases call) auto
  show ?case
    unfolding call pickMany_Cons
    using Cons.IH [of "snd (pickProxy d s rc ri)"]
    by (simp add: resolvePool_after strategyOf_after)
qed

lemma pinned_pickMany:
  assumes "pinned d key country poolType i" and "i < length pool"
    and "\<forall>(s, c, r) \<in> set calls.
           strategyOf d s = ''sticky'' \<and> orElse (sessionKey s) [] = key
             \<longrightarrow> resolvePool d s c = Inr (country, poolType, pool)"
  shows "pinned (snd (pickMany d calls)) key country poolType i"
  using assms
proof (induction calls arbitrary: d)
  case Nil
  then show ?case by simp
next
  case (Cons call calls)
  obtain s rc ri where call: "call = (s, rc, ri)" by (cases call) auto
  let ?d' = "snd (pickProxy d s rc ri)"
  have "strategyOf d s = ''sticky'' \<and> orElse (sessionKey s) [] = key
          \<longrightarrow> resolvePool d s rc = Inr (country, poolType, pool)"
    using Cons.prems(3) call by auto
  with Cons.prems(1,2) have pin': "pinned ?d' key country poolType i"
    by (rule pinned_kept)
  have "\<forall>(s', c, r) \<in> set calls.
          strategyOf ?d' s' = ''sticky'' \<and> orElse (sessionKey s') [] = key
            \<longrightarrow> resolvePool ?d' s' c = Inr (country, poolType, pool)"
    using Cons.prems(3) by (auto simp: resolvePool_after strategyOf_after)
  with pin' Cons.prems(2) have "pinned (snd (pickMany ?d' calls)) key country poolType i"
    by (rule Cons.IH)
  then show ?case unfolding call pickMany_Cons .
qed

text \<open>
  C2, as the code has it. Take a call with the strategy \<^verbatim>\<open>sticky\<close> and a session key
  that is not empty, which resolves to the pool of \<open>(country, poolType)\<close>, and let the
  index draw lie in \<open>[0, 1)\<close>.
  \<^item> If the sticky table holds for the key an entry with this country, this type and an
    index below the pool length, the call returns the entry at that index and changes
    nothing of the director.
  \<^item> Otherwise it draws an index below the pool length, returns the entry there and
    overwrites the table entry of the key with the country, the type and that index.
  \<^item> After the call, let any calls follow in which every sticky call with this key
    resolves to the same pair. Then a sticky call with this key that resolves to the pair
    chooses the index of the first call, returns the same \<^verbatim>\<open>proxyConfig\<close> and changes
    nothing: the key is pinned.
\<close>

theorem sticky_affinity:
  assumes res: "resolvePool d sel rc = Inr (country, poolType, pool)"
    and str: "strategyOf d sel = ''sticky''"
    and key: "orElse (sessionKey sel) [] = key" "key \<noteq> []"
    and rnd: "0 \<le> ri" "ri < 1"
  shows "(\<forall>i. pinned d key country poolType i \<and> i < length pool \<longrightarrow>
            pickedIndex d sel rc ri = Some i
            \<and> pickProxy d sel rc ri = (deliver sel country poolType ''sticky'' pool i, d))
       \<and> (\<not> (\<exists>i < length pool. pinned d key country poolType i) \<longrightarrow>
            pickedIndex d sel rc ri = Some (randomIndex ri (length pool))
            \<and> randomIndex ri (length pool) < length pool
            \<and> pickProxy d sel rc ri =
                (deliver sel country poolType ''sticky'' pool (randomIndex ri (length pool)),
                 d\<lparr>sticky := (sticky d)(key \<mapsto>
                      \<lparr> sticky_country = country, sticky_type = poolType,
                        sticky_index = randomIndex ri (length pool) \<rparr>)\<rparr>))
       \<and> (\<forall>calls sel2 rc2 ri2.
            (\<forall>(s, c, r) \<in> set calls.
                strategyOf d s = ''sticky'' \<and> orElse (sessionKey s) [] = key
                  \<longrightarrow> resolvePool d s c = Inr (country, poolType, pool))
            \<and> strategyOf d sel2 = ''sticky'' \<and> orElse (sessionKey sel2) [] = key
            \<and> resolvePool d sel2 rc2 = Inr (country, poolType, pool)
            \<longrightarrow> pickedIndex (snd (pickMany (snd (pickProxy d sel rc ri)) calls)) sel2 rc2 ri2
                  = pickedIndex d sel rc ri
                \<and> map_sum id proxyConfig
                    (fst (pickProxy (snd (pickMany (snd (pickProxy d sel rc ri)) calls)) sel2 rc2 ri2))
                  = map_sum id proxyConfig (fst (pickProxy d sel rc ri))
                \<and> snd (pickProxy (snd (pickMany (snd (pickProxy d sel rc ri)) calls)) sel2 rc2 ri2)
                  = snd (pickMany (snd (pickProxy d sel rc ri)) calls))"
proof (intro conjI allI impI)
  fix i assume "pinned d key country poolType i \<and> i < length pool"
  then show "pickedIndex d sel rc ri = Some i"
    and "pickProxy d sel rc ri = (deliver sel country poolType ''sticky'' pool i, d)"
    using sticky_call_reuse [OF res str key] by blast+
next
  assume fresh: "\<not> (\<exists>i < length pool. pinned d key country poolType i)"
  show "pickedIndex d sel rc ri = Some (randomIndex ri (length pool))"
    by (rule sticky_call_fresh(2) [OF res str key fresh])
  show "pickProxy d sel rc ri =
          (deliver sel country poolType ''sticky'' pool (randomIndex ri (length pool)),
           d\<lparr>sticky := (sticky d)(key \<mapsto>
                \<lparr> sticky_country = country, sticky_type = poolType,
                  sticky_index = randomIndex ri (length pool) \<rparr>)\<rparr>)"
    by (rule sticky_call_fresh(1) [OF res str key fresh])
  have "pool \<noteq> []" using res by (simp add: resolvePool_Inr)
  then show "randomIndex ri (length pool) < length pool"
    using rnd by (intro randomIndex_less) simp_all
next
  fix calls sel2 rc2 ri2
  let ?d1 = "snd (pickProxy d sel rc ri)"
  let ?d2 = "snd (pickMany ?d1 calls)"
  assume later:
    "(\<forall>(s, c, r) \<in> set calls.
        strategyOf d s = ''sticky'' \<and> orElse (sessionKey s) [] = key
          \<longrightarrow> resolvePool d s c = Inr (country, poolType, pool))
     \<and> strategyOf d sel2 = ''sticky'' \<and> orElse (sessionKey sel2) [] = key
     \<and> resolvePool d sel2 rc2 = Inr (country, poolType, pool)"
  obtain i where i: "i < length pool" "pickedIndex d sel rc ri = Some i"
      "pinned ?d1 key country poolType i"
    using sticky_call_pins [OF res str key rnd] by blast
  have first: "fst (pickProxy d sel rc ri) = deliver sel country poolType ''sticky'' pool i"
    using i(2) by (simp add: pickProxy_resolved [OF res] str)
  have "\<forall>(s, c, r) \<in> set calls.
          strategyOf ?d1 s = ''sticky'' \<and> orElse (sessionKey s) [] = key
            \<longrightarrow> resolvePool ?d1 s c = Inr (country, poolType, pool)"
    using later by (auto simp: resolvePool_after strategyOf_after)
  with i(3,1) have pin2: "pinned ?d2 key country poolType i"
    by (rule pinned_pickMany)
  have res2: "resolvePool ?d2 sel2 rc2 = Inr (country, poolType, pool)"
    and str2: "strategyOf ?d2 sel2 = ''sticky''"
    using later by (simp_all add: pickMany_frame resolvePool_after strategyOf_after)
  have key2: "orElse (sessionKey sel2) [] = key" using later by simp
  note second = sticky_call_reuse [OF res2 str2 key2 key(2) pin2 i(1), of ri2]
  show "pickedIndex ?d2 sel2 rc2 ri2 = pickedIndex d sel rc ri"
    using second(2) i(2) by simp
  show "map_sum id proxyConfig (fst (pickProxy ?d2 sel2 rc2 ri2))
          = map_sum id proxyConfig (fst (pickProxy d sel rc ri))"
    unfolding second(1) first fst_conv
    by (rule deliver_proxyConfig) (simp add: key key2)
  show "snd (pickProxy ?d2 sel2 rc2 ri2) = ?d2"
    using second(1) by simp
qed


text \<open>
  The theorem on the sample director: the first call with key \<^verbatim>\<open>u42\<close> draws index 1;
  the same call repeated, at once or after a round-robin call and a sticky call with
  another key, chooses index 1 again although its own draw would give index 0.
\<close>

theorem sticky_affinity_witness:
  "resolvePool sampleDirector (selUS ''sticky'' (Some ''u42'')) 0 = Inr (''US'', ''res_rotating'', poolABC)
   \<and> strategyOf sampleDirector (selUS ''sticky'' (Some ''u42'')) = ''sticky''
   \<and> orElse (sessionKey (selUS ''sticky'' (Some ''u42''))) [] = ''u42''
   \<and> \<not> (\<exists>i < length poolABC. pinned sampleDirector ''u42'' ''US'' ''res_rotating'' i)
   \<and> pickedIndex sampleDirector (selUS ''sticky'' (Some ''u42'')) 0 (1 / 3) = Some 1
   \<and> pinned (snd (pickProxy sampleDirector (selUS ''sticky'' (Some ''u42'')) 0 (1 / 3)))
        ''u42'' ''US'' ''res_rotating'' 1
   \<and> pickedIndex (snd (pickProxy sampleDirector (selUS ''sticky'' (Some ''u42'')) 0 (1 / 3)))
        (selUS ''sticky'' (Some ''u42'')) 0 0 = Some 1
   \<and> pickedIndex
        (snd (pickMany (snd (pickProxy sampleDirector (selUS ''sticky'' (Some ''u42'')) 0 (1 / 3)))
           [(selUS ''roundRobin'' (Some ''u42''), 0, 0), (selUS ''sticky'' (Some ''v7''), 0, 0)]))
        (selUS ''sticky'' (Some ''u42'')) 0 0 = Some 1"
proof -
  let ?sel = "selUS ''sticky'' (Some ''u42'')"
  let ?d1 = "snd (pickProxy sampleDirector ?sel 0 (1 / 3))"
  let ?calls = "[(selUS ''roundRobin'' (Some ''u42''), 0 :: rat, 0 :: rat),
                 (selUS ''sticky'' (Some ''v7''), 0, 0)]"
  have res: "resolvePool sampleDirector ?sel 0 = Inr (''US'', ''res_rotating'', poolABC)"
    by (simp add: director_defs sample_defs)
  have str: "strategyOf sampleDirector ?sel = ''sticky''"
    by (simp add: strategyOf_def orElse_def selUS_def)
  have key: "orElse (sessionKey ?sel) [] = ''u42''" "''u42'' \<noteq> []"
    by (simp_all add: orElse_def selUS_def)
  have rnd: "(0::rat) \<le> 1 / 3" "(1 / 3 :: rat) < 1" by simp_all
  have len: "length poolABC = 3" by (simp add: poolABC_def)
  have fresh: "\<not> (\<exists>i < length poolABC. pinned sampleDirector ''u42'' ''US'' ''res_rotating'' i)"
    by (simp add: pinned_def sampleDirector_def newDirector_def)
  note main = sticky_affinity [OF res str key rnd]
  have idx: "randomIndex (1 / 3) 3 = 1" by (simp add: randomIndex_def)
  have first: "pickedIndex sampleDirector ?sel 0 (1 / 3) = Some 1"
    using main fresh by (simp add: len idx)
  have state: "?d1 = sampleDirector\<lparr>sticky := (sticky sampleDirector)(''u42'' \<mapsto>
      \<lparr> sticky_country = ''US'', sticky_type = ''res_rotating'', sticky_index = 1 \<rparr>)\<rparr>"
    using main fresh by (simp add: len idx)
  have pin: "pinned ?d1 ''u42'' ''US'' ''res_rotating'' 1"
    unfolding state by (simp add: pinned_def)
  have later: "(\<forall>(s, c, r) \<in> set ?calls.
         strategyOf sampleDirector s = ''sticky'' \<and> orElse (sessionKey s) [] = ''u42''
           \<longrightarrow> resolvePool sampleDirector s c = Inr (''US'', ''res_rotating'', poolABC))
       \<and> strategyOf sampleDirector ?sel = ''sticky'' \<and> orElse (sessionKey ?sel) [] = ''u42''
       \<and> resolvePool sampleDirector ?sel 0 = Inr (''US'', ''res_rotating'', poolABC)"
    using res str key by (simp add: strategyOf_def orElse_def selUS_def)
  have again: "pickedIndex (snd (pickMany ?d1 ?calls)) ?sel 0 0 = Some 1"
    using main [THEN conjunct2, THEN conjunct2, rule_format, OF later] first by simp
  have res1: "resolvePool ?d1 ?sel 0 = Inr (''US'', ''res_rotating'', poolABC)"
    and str1: "strategyOf ?d1 ?sel = ''sticky''"
    using res str by (simp_all add: resolvePool_after strategyOf_after)
  have zero: "(0::rat) \<le> 0" "(0::rat) < 1" by simp_all
  have reuse: "pickedIndex ?d1 ?sel 0 0 = Some 1"
    using sticky_affinity [OF res1 str1 key zero] pin by (simp add: len)
  from res str key(1) fresh first pin reuse again show ?thesis by blast
qed

text \<open>
  The claim as the specification words it, that two calls with the same session key and
  the same resolved pair return the same \<^verbatim>\<open>proxyConfig\<close>, fails when a call with that key
  resolves to another pair in between. On the sample director the key \<^verbatim>\<open>u42\<close> first
  draws index 1 of \<^verbatim>\<open>US/res_rotating\<close>; a call with the key for \<^verbatim>\<open>DE\<close> overwrites the
  table entry; the next call for \<^verbatim>\<open>US/res_rotating\<close> draws again and returns index 0,
  another endpoint.
\<close>

theorem sticky_overwritten_counterexample:
  "resolvePool sampleDirector (selUS ''sticky'' (Some ''u42'')) 0 = Inr (''US'', ''res_rotating'', poolABC)
   \<and> pickedIndex sampleDirector (selUS ''sticky'' (Some ''u42'')) 0 (1 / 3) = Some 1
   \<and> resolvePool sampleDirector ((selUS ''sticky'' (Some ''u42''))\<lparr>sel_country := Some ''de''\<rparr>) 0
        = Inr (''DE'', ''dc_static'', [Some entryB])
   \<and> resolvePool
        (snd (pickMany sampleDirector
           [(selUS ''sticky'' (Some ''u42''), 0, 1 / 3),
            ((selUS ''sticky'' (Some ''u42''))\<lparr>sel_country := Some ''de''\<rparr>, 0, 0)]))
        (selUS ''sticky'' (Some ''u42'')) 0 = Inr (''US'', ''res_rotating'', poolABC)
   \<and> pickedIndex
        (snd (pickMany sampleDirector
           [(selUS ''sticky'' (Some ''u42''), 0, 1 / 3),
            ((selUS ''sticky'' (Some ''u42''))\<lparr>sel_country := Some ''de''\<rparr>, 0, 0)]))
        (selUS ''sticky'' (Some ''u42'')) 0 0 = Some 0
   \<and> map_sum id (host \<circ> proxyConfig)
        (fst (pickProxy sampleDirector (selUS ''sticky'' (Some ''u42'')) 0 (1 / 3)))
        = Inr ''b.proxy.io''
   \<and> map_sum id (host \<circ> proxyConfig)
        (fst (pickProxy
           (snd (pickMany sampleDirector
              [(selUS ''sticky'' (Some ''u42''), 0, 1 / 3),
               ((selUS ''sticky'' (Some ''u42''))\<lparr>sel_country := Some ''de''\<rparr>, 0, 0)]))
           (selUS ''sticky'' (Some ''u42'')) 0 0))
        = Inr ''u-u42.proxy.io''"
  by (simp add: director_defs sample_defs split_beta)

subsection \<open>C6: expansion of the session token\<close>

lemma getSubstitution_plain:
  assumes "CHR ''$'' \<notin> set repl"
  shows "getSubstitution matched str position repl = repl"
  using assms
  by (induction matched str position repl rule: getSubstitution.induct) auto

lemma replaceFrom_plain:
  assumes "CHR ''$'' \<notin> set repl"
  shows "replaceFrom str search repl position rest = replaceEvery search repl rest"
  using assms
  by (induction str search repl position rest rule: replaceFrom.induct)
     (auto simp: getSubstitution_plain)

lemma rep_plain:
  assumes "CHR ''$'' \<notin> set session"
  shows "rep session v = replaceEvery sessionToken session v"
  by (simp add: rep_def replaceAll_def replaceFrom_plain [OF assms])

lemma applySessionToken_plain:
  assumes "session \<noteq> []" and "CHR ''$'' \<notin> set session"
  shows "applySessionToken cfg session =
           \<lparr> protocol = protocol cfg,
             host = replaceEvery sessionToken session (host cfg),
             port = port cfg,
             username = map_option (replaceEvery sessionToken session) (username cfg),
             password = map_option (replaceEvery sessionToken session) (password cfg),
             auth = None, others = [] \<rparr>"
proof -
  have "rep session = replaceEvery sessionToken session"
    by (rule ext) (rule rep_plain [OF assms(2)])
  then show ?thesis using assms(1) by (simp add: applySessionToken_def)
qed

lemma applySessionToken_empty: "applySessionToken cfg [] = cfg"
  by (simp add: applySessionToken_def)

lemma applySessionToken_fixed:
  "protocol (applySessionToken cfg session) = protocol cfg
   \<and> port (applySessionToken cfg session) = port cfg"
  by (simp add: applySessionToken_def)

text \<open>
  C6, at the inputs where the code leaves the claim. The claim: for every session string
  that is not empty, the expansion puts the session string in the place of every
  \<^verbatim>\<open>${session}\<close> in host, username and password. \<^verbatim>\<open>replaceAll\<close> reads its second
  argument as a replacement template, so a session string that contains \<^verbatim>\<open>$$\<close>,
  \<^verbatim>\<open>$&\<close>, \<^verbatim>\<open>$`\<close> or \<^verbatim>\<open>$'\<close> is not inserted as it is. For the endpoint with host
  \<^verbatim>\<open>u-${session}.proxy.io\<close> and username \<^verbatim>\<open>acct-${session}\<close>: the session string
  \<^verbatim>\<open>$$\<close> gives the host \<^verbatim>\<open>u-$.proxy.io\<close> where plain replacement gives
  \<^verbatim>\<open>u-$$.proxy.io\<close>, also through \<^verbatim>\<open>pickProxy\<close>; the session string \<^verbatim>\<open>$&\<close> gives the
  host back with its marker. The session string \<^verbatim>\<open>42\<close> gives \<^verbatim>\<open>u-42.proxy.io\<close> and
  \<^verbatim>\<open>acct-42\<close>, as the specification's example says; the lemmas above show that every
  session string without a dollar sign is inserted as it is, that the empty session string
  returns the endpoint as stored, and that protocol and port are never changed.
\<close>

theorem applySessionToken_dollar_patterns:
  "host epA = ''u-${session}.proxy.io'' \<and> username epA = Some ''acct-${session}''
   \<and> replaceEvery sessionToken ''$$'' (host epA) = ''u-$$.proxy.io''
   \<and> host (applySessionToken epA ''$$'') = ''u-$.proxy.io''
   \<and> username (applySessionToken epA ''$$'') = Some ''acct-$''
   \<and> host (applySessionToken epA ''$&'') = ''u-${session}.proxy.io''
   \<and> map_sum id (host \<circ> proxyConfig)
        (fst (pickProxy sampleDirector (selUS ''random'' (Some ''$$'')) 0 0))
       = Inr ''u-$.proxy.io''
   \<and> host (applySessionToken epA ''42'') = ''u-42.proxy.io''
   \<and> username (applySessionToken epA ''42'') = Some ''acct-42''"
  by (simp add: director_defs sample_defs)


subsection \<open>C8: the fields of the returned \<^verbatim>\<open>proxyConfig\<close>\<close>

lemma pickProxy_Inr:
  assumes "fst (pickProxy d sel rc ri) = Inr pick"
  shows "\<exists>country poolType pool i entry ep.
           resolvePool d sel rc = Inr (country, poolType, pool)
           \<and> pickedIndex d sel rc ri = Some i
           \<and> elemAt pool i = Some (Some entry)
           \<and> endpoint entry = Some ep
           \<and> pick = \<lparr> proxyConfig = applySessionToken ep (orElse (sessionKey sel) []),
                      pick_country = country, pick_type = poolType,
                      pick_strategy = strategyOf d sel,
                      pick_provider = provider entry, pick_notes = entry_notes entry \<rparr>"
proof (cases "resolvePool d sel rc")
  case (Inl e)
  with assms show ?thesis by (simp add: pickProxy_unresolved)
next
  case (Inr r)
  obtain country poolType pool where r: "resolvePool d sel rc = Inr (country, poolType, pool)"
    using Inr by (cases r) auto
  let ?i = "fst (selectIndex d sel (strategyOf d sel) country poolType (length pool) ri)"
  have "deliver sel country poolType (strategyOf d sel) pool ?i = Inr pick"
    using assms by (simp add: pickProxy_resolved [OF r])
  then obtain entry ep where "elemAt pool ?i = Some (Some entry)" "endpoint entry = Some ep"
    "pick = \<lparr> proxyConfig = applySessionToken ep (orElse (sessionKey sel) []),
              pick_country = country, pick_type = poolType,
              pick_strategy = strategyOf d sel,
              pick_provider = provider entry, pick_notes = entry_notes entry \<rparr>"
    by (auto simp: deliver_def split: option.splits)
  then show ?thesis
    using r pickProxy_resolved(2) [OF r, of ri] by auto
qed

text \<open>
  C8, as the code has it. A successful call of \<^verbatim>\<open>pickProxy\<close> returns the
  \<^verbatim>\<open>proxyConfig\<close> made from the endpoint of the chosen pool entry. With a session key
  that is not empty it has exactly the properties protocol, host, port, username and
  password (host, username and password expanded): no \<^verbatim>\<open>auth\<close> and no other stored
  property. With no session key, or an empty one, it is a copy of the stored endpoint with every stored
  property, \<^verbatim>\<open>auth\<close> included.
\<close>

theorem proxyConfig_shape:
  assumes "fst (pickProxy d sel rc ri) = Inr pick"
  shows "\<exists>country poolType pool i entry ep.
           resolvePool d sel rc = Inr (country, poolType, pool)
           \<and> pickedIndex d sel rc ri = Some i
           \<and> elemAt pool i = Some (Some entry)
           \<and> endpoint entry = Some ep
           \<and> (orElse (sessionKey sel) [] = [] \<longrightarrow> proxyConfig pick = ep)
           \<and> (orElse (sessionKey sel) [] \<noteq> [] \<longrightarrow>
                proxyConfig pick =
                  \<lparr> protocol = protocol ep,
                    host = rep (orElse (sessionKey sel) []) (host ep),
                    port = port ep,
                    username = map_option (rep (orElse (sessionKey sel) [])) (username ep),
                    password = map_option (rep (orElse (sessionKey sel) [])) (password ep),
                    auth = None, others = [] \<rparr>)"
proof -
  from pickProxy_Inr [OF assms] obtain country poolType pool i entry ep where
    "resolvePool d sel rc = Inr (country, poolType, pool)"
    "pickedIndex d sel rc ri = Some i"
    "elemAt pool i = Some (Some entry)"
    "endpoint entry = Some ep"
    "proxyConfig pick = applySessionToken ep (orElse (sessionKey sel) [])"
    by auto
  then show ?thesis
    by (intro exI [of _ country] exI [of _ poolType] exI [of _ pool] exI [of _ i]
          exI [of _ entry] exI [of _ ep]) (simp add: applySessionToken_def)
qed


text \<open>
  The theorem on the catalog built from a sanitised entry, once without a session key and
  once with the key \<^verbatim>\<open>s1\<close>.
\<close>

theorem proxyConfig_shape_witness:
  "orElse (sessionKey selNone) [] = []
   \<and> fst (pickProxy (newDirector builtCatalog [] None None) selNone 0 0)
     = Inr \<lparr> proxyConfig = \<lparr> protocol = ''http'', host = ''p.webshare.io'', port = 80,
                username = Some ''u'', password = Some ''p'', auth = Some ''u:p'', others = [] \<rparr>,
             pick_country = ''US'', pick_type = ''res_rotating'', pick_strategy = ''random'',
             pick_provider = Some ''Webshare'', pick_notes = None \<rparr>
   \<and> orElse (sessionKey (selNone\<lparr>sessionKey := Some ''s1''\<rparr>)) [] \<noteq> []
   \<and> fst (pickProxy (newDirector builtCatalog [] None None) (selNone\<lparr>sessionKey := Some ''s1''\<rparr>) 0 0)
     = Inr \<lparr> proxyConfig = \<lparr> protocol = ''http'', host = ''p.webshare.io'', port = 80,
                username = Some ''u'', password = Some ''p'', auth = None, others = [] \<rparr>,
             pick_country = ''US'', pick_type = ''res_rotating'', pick_strategy = ''random'',
             pick_provider = Some ''Webshare'', pick_notes = None \<rparr>
   \<and> (\<exists>pool i entry ep.
         resolvePool (newDirector builtCatalog [] None None) selNone 0
           = Inr (''US'', ''res_rotating'', pool)
         \<and> elemAt pool i = Some (Some entry)
         \<and> endpoint entry = Some ep
         \<and> ep = \<lparr> protocol = ''http'', host = ''p.webshare.io'', port = 80,
                username = Some ''u'', password = Some ''p'', auth = Some ''u:p'', others = [] \<rparr>)
   \<and> (\<exists>pool i entry ep.
         resolvePool (newDirector builtCatalog [] None None) (selNone\<lparr>sessionKey := Some ''s1''\<rparr>) 0
           = Inr (''US'', ''res_rotating'', pool)
         \<and> elemAt pool i = Some (Some entry)
         \<and> endpoint entry = Some ep
         \<and> \<lparr> protocol = protocol ep, host = rep ''s1'' (host ep), port = port ep,
               username = map_option (rep ''s1'') (username ep),
               password = map_option (rep ''s1'') (password ep), auth = None, others = [] \<rparr>
             = \<lparr> protocol = ''http'', host = ''p.webshare.io'', port = 80,
                username = Some ''u'', password = Some ''p'', auth = None, others = [] \<rparr>)"
proof -
  let ?d = "newDirector builtCatalog [] None None"
  let ?keyed = "selNone\<lparr>sessionKey := Some ''s1''\<rparr>"
  let ?pick = "\<lparr> proxyConfig = \<lparr> protocol = ''http'', host = ''p.webshare.io'', port = 80,
                username = Some ''u'', password = Some ''p'', auth = Some ''u:p'', others = [] \<rparr>,
             pick_country = ''US'', pick_type = ''res_rotating'', pick_strategy = ''random'',
             pick_provider = Some ''Webshare'', pick_notes = None \<rparr>"
  let ?pick' = "\<lparr> proxyConfig = \<lparr> protocol = ''http'', host = ''p.webshare.io'', port = 80,
                username = Some ''u'', password = Some ''p'', auth = None, others = [] \<rparr>,
             pick_country = ''US'', pick_type = ''res_rotating'', pick_strategy = ''random'',
             pick_provider = Some ''Webshare'', pick_notes = None \<rparr>"
  have run: "fst (pickProxy ?d selNone 0 0) = Inr ?pick"
    by (simp add: director_defs builtCatalog_def rawEntry_def sanitizeEntry_def selNone_def
          trim_def isSpace_def)
  have run': "fst (pickProxy ?d ?keyed 0 0) = Inr ?pick'"
    by (simp add: director_defs builtCatalog_def rawEntry_def sanitizeEntry_def selNone_def
          trim_def isSpace_def)
  have nokey: "orElse (sessionKey selNone) [] = []"
    by (simp add: orElse_def selNone_def)
  have key: "orElse (sessionKey ?keyed) [] = ''s1''"
    by (simp add: orElse_def selNone_def)
  have a: "\<exists>pool i entry ep.
         resolvePool ?d selNone 0 = Inr (''US'', ''res_rotating'', pool)
         \<and> elemAt pool i = Some (Some entry)
         \<and> endpoint entry = Some ep
         \<and> ep = \<lparr> protocol = ''http'', host = ''p.webshare.io'', port = 80,
                username = Some ''u'', password = Some ''p'', auth = Some ''u:p'', others = [] \<rparr>"
    using proxyConfig_shape [OF run] pickProxy_Inr [OF run] nokey by fastforce
  have b: "\<exists>pool i entry ep.
         resolvePool ?d ?keyed 0 = Inr (''US'', ''res_rotating'', pool)
         \<and> elemAt pool i = Some (Some entry)
         \<and> endpoint entry = Some ep
         \<and> \<lparr> protocol = protocol ep, host = rep ''s1'' (host ep), port = port ep,
               username = map_option (rep ''s1'') (username ep),
               password = map_option (rep ''s1'') (password ep), auth = None, others = [] \<rparr>
             = \<lparr> protocol = ''http'', host = ''p.webshare.io'', port = 80,
                username = Some ''u'', password = Some ''p'', auth = None, others = [] \<rparr>"
    using proxyConfig_shape [OF run'] pickProxy_Inr [OF run'] unfolding key by fastforce
  from nokey run key run' a b show ?thesis by simp
qed


text \<open>
  The claim as the specification words it, that \<^verbatim>\<open>auth\<close> never appears in the returned
  \<^verbatim>\<open>proxyConfig\<close>, fails without a session key: \<^verbatim>\<open>sanitizeEntry\<close> derives
  \<^verbatim>\<open>auth = "u:p"\<close> from username and password, and the pick returns it; with the session
  key \<^verbatim>\<open>s1\<close> the same pick has no \<^verbatim>\<open>auth\<close>.
\<close>

theorem proxyConfig_auth_counterexample:
  "sanitizeEntry (Some rawEntry)
     = Inr \<lparr> provider = Some ''Webshare'', entry_notes = None,
             endpoint = Some \<lparr> protocol = ''http'', host = ''p.webshare.io'', port = 80,
               username = Some ''u'', password = Some ''p'', auth = Some ''u:p'', others = [] \<rparr> \<rparr>
   \<and> sessionKey selNone = None
   \<and> map_sum id (auth \<circ> proxyConfig)
        (fst (pickProxy (newDirector builtCatalog [] None None) selNone 0 0)) = Inr (Some ''u:p'')
   \<and> map_sum id (auth \<circ> proxyConfig)
        (fst (pickProxy (newDirector builtCatalog [] None None)
                (selNone\<lparr>sessionKey := Some ''s1''\<rparr>) 0 0)) = Inr None"
  by (simp add: director_defs builtCatalog_def rawEntry_def sanitizeEntry_def selNone_def
        trim_def isSpace_def)

subsection \<open>C4: type fallback\<close>

text \<open>
  What the code does for type names that are not empty: the desired type when its pool is
  populated, otherwise the first populated type of the priority order, otherwise the first
  populated key of the country record; for a country populated under \<^verbatim>\<open>dc_static\<close> only,
  asking for \<^verbatim>\<open>res_rotating\<close> gives a pick of type \<^verbatim>\<open>dc_static\<close>.
\<close>

lemma resolveType_fallback:
  "(populated cRec (orElse (sel_type sel) (defaultType d)) \<longrightarrow>
      resolveType d sel cRec = Some (orElse (sel_type sel) (defaultType d)))
   \<and> (\<not> populated cRec (orElse (sel_type sel) (defaultType d)) \<longrightarrow>
        resolveType d sel cRec = firstAvailableType (Some cRec))
   \<and> (\<forall>t ts. filter (populated cRec) typeOrder = t # ts \<longrightarrow>
        firstAvailableType (Some cRec) = Some t)
   \<and> (\<forall>k ks. filter (populated cRec) typeOrder = []
          \<and> filter (populated cRec) (map fst cRec) = k # ks \<and> k \<noteq> [] \<longrightarrow>
        firstAvailableType (Some cRec) = Some k)
   \<and> (filter (populated cRec) (map fst cRec) = [] \<longrightarrow> firstAvailableType (Some cRec) = None)"
proof -
  have "filter (populated cRec) typeOrder = []" if "filter (populated cRec) (map fst cRec) = []"
  proof -
    have "\<not> populated cRec t" for t
    proof
      assume "populated cRec t"
      then obtain pool where "map_of cRec t = Some pool"
        by (auto simp: populated_def split: option.splits)
      then have "t \<in> set (map fst cRec)"
        by (metis map_of_SomeD fst_conv image_eqI set_map)
      with \<open>populated cRec t\<close> have "t \<in> set (filter (populated cRec) (map fst cRec))" by simp
      with that show False by simp
    qed
    then show ?thesis by (simp add: filter_empty_conv)
  qed
  then show ?thesis
    by (auto simp: resolveType_def firstAvailableType_def Let_def)
qed

lemma type_fallback_example:
  "map_sum id pick_type
     (fst (pickProxy sampleDirector
        \<lparr> sel_country = Some ''DE'', sel_type = Some ''res_rotating'',
          sel_strategy = None, sessionKey = None \<rparr> 0 0)) = Inr ''dc_static''"
  by (simp add: director_defs sample_defs)

text \<open>
  C4, at the input where the code leaves the claim. The claim: when none of the four
  types of the priority order is populated, the call resolves to another populated type
  key of the country record; and a desired type whose pool is populated is used. For the
  country record \<^verbatim>\<open>{ "": [entry] }\<close>, whose only populated type key is the empty string,
  \<^verbatim>\<open>keys[0] || null\<close> makes \<^verbatim>\<open>firstAvailableType\<close> return \<^verbatim>\<open>null\<close> and
  \<^verbatim>\<open>pickProxy\<close> throws "no proxy types present"; it throws as well when the empty string
  is the default type and so the desired one, by \<^verbatim>\<open>if (!poolType)\<close>.
\<close>

theorem empty_type_key_not_resolved:
  "map_of emptyTypeCatalog ''US'' = Some [([], [Some entryB])]
   \<and> populated [([], [Some entryB])] []
   \<and> firstAvailableType (Some [([], [Some entryB])]) = None
   \<and> fst (pickProxy (newDirector emptyTypeCatalog [] None None) (selUS ''random'' None) 0 0)
       = Inl NoProxyTypes
   \<and> fst (pickProxy ((newDirector emptyTypeCatalog [] None None)\<lparr>defaultType := []\<rparr>)
            ((selUS ''random'' None)\<lparr>sel_type := None\<rparr>) 0 0)
       = Inl NoProxyTypes"
  by (simp add: director_defs emptyTypeCatalog_def sample_defs)

subsection \<open>C7: when \<^verbatim>\<open>pickProxy\<close> throws\<close>




lemma toUpperCase_empty: "toUpperCase s = [] \<longleftrightarrow> s = []"
  by (simp add: toUpperCase_def)
















end
